theory Spec2Isabelle
  imports
    Main
    "HOL-Library.Sublist"
    "HOL-Library.Multiset"
    "HOL-Library.Char_ord"
    "HOL-Library.List_Lexorder"
    "HOL-Library.Product_Lexorder"
    "HOL-Library.Word"
begin

section \<open>Strings\<close>

text \<open>
  The program is TypeScript; its strings are sequences of UTF-16 code units. The model
  covers the strings whose code units are all below 256 (the Latin-1 range), written as
  \<^typ>\<open>string\<close>: one \<^typ>\<open>char\<close> is one code unit. On that range
  \<^verbatim>\<open>toLowerCase\<close> maps the code units 65..90 and 192..222 (215 apart) to the
  unit 32 higher and leaves every other unit alone, a string and its lower-case form
  have the same length, and iterating a string with \<^verbatim>\<open>for ... of\<close> visits one
  code unit at a time. The regular expression class \<^verbatim>\<open>\s\<close> and
  \<^verbatim>\<open>String.prototype.trim\<close> recognise the same white space; below 256 these are
  the units 9 to 13, 32 and 160.
\<close>

definition toLowerChar :: "char \<Rightarrow> char" where
  "toLowerChar c =
     (let n = (of_char c :: nat)
      in if (65 \<le> n \<and> n \<le> 90) \<or> (192 \<le> n \<and> n \<le> 222 \<and> n \<noteq> 215)
         then char_of (n + 32) else c)"

definition toLowerCase :: "string \<Rightarrow> string" where
  "toLowerCase s = map toLowerChar s"

definition isSpace :: "char \<Rightarrow> bool" where
  "isSpace c = (let n = (of_char c :: nat) in (9 \<le> n \<and> n \<le> 13) \<or> n = 32 \<or> n = 160)"

text \<open>\<^verbatim>\<open>s.replace(/\s+/g, "")\<close>: every run of white space is deleted.\<close>

definition removeSpaces :: "string \<Rightarrow> string" where
  "removeSpaces s = filter (\<lambda>c. \<not> isSpace c) s"

text \<open>\<^verbatim>\<open>s.trim()\<close>: white space is removed at both ends.\<close>

definition trim :: "string \<Rightarrow> string" where
  "trim s = rev (dropWhile isSpace (rev (dropWhile isSpace s)))"

text \<open>
  \<^verbatim>\<open>s.split(/\s+/)\<close>: the fields between the maximal runs of white space, in
  order. A run at the start or at the end of the string gives an empty first or last
  field, and the empty string gives one empty field. The first argument is the field
  read so far, last character first.
\<close>

fun splitSpaces :: "string \<Rightarrow> string \<Rightarrow> string list" where
  "splitSpaces cur [] = [rev cur]"
| "splitSpaces cur [c] = (if isSpace c then [rev cur, []] else [rev (c # cur)])"
| "splitSpaces cur (c # d # cs) =
     (if isSpace c
      then (if isSpace d then splitSpaces cur (d # cs) else rev cur # splitSpaces [] (d # cs))
      else splitSpaces (c # cur) (d # cs))"

text \<open>\<^verbatim>\<open>xs.join(sep)\<close>.\<close>

fun join :: "string \<Rightarrow> string list \<Rightarrow> string" where
  "join sep [] = []"
| "join sep [x] = x"
| "join sep (x # y # ys) = x @ sep @ join sep (y # ys)"

text \<open>
  \<^verbatim>\<open>s.indexOf(target, fromIndex)\<close> for a target of one code unit: the least index
  at or after \<open>fromIndex\<close> that holds the target, and \<open>-1\<close> when there is none (also
  when \<open>fromIndex\<close> is past the end).
\<close>

fun firstIndex :: "char \<Rightarrow> string \<Rightarrow> nat option" where
  "firstIndex t [] = None"
| "firstIndex t (c # cs) = (if c = t then Some 0 else map_option Suc (firstIndex t cs))"

definition indexOf :: "string \<Rightarrow> char \<Rightarrow> nat \<Rightarrow> int" where
  "indexOf s target fromIndex =
     (case firstIndex target (drop fromIndex s) of
        None \<Rightarrow> -1
      | Some k \<Rightarrow> int (fromIndex + k))"

section \<open>The matcher: \<^verbatim>\<open>fuzzyScore\<close>\<close>

text \<open>
  The body of the \<^verbatim>\<open>for\<close> loop of \<^verbatim>\<open>fuzzyScore\<close>, over the characters of the
  normalised query that are still to be matched, with the loop's two variables
  \<^verbatim>\<open>score\<close> and \<^verbatim>\<open>candidateIndex\<close>. The result \<open>-1\<close> is the early return.

  This is the loop on the strings of this section, where a character is one code unit.
  The loop on every string of the language, where \<^verbatim>\<open>for ... of\<close> yields code points
  and a surrogate pair is one target of two code units, is \<open>scoreLoopUnits\<close> in the
  section on code units below; the two are proved to agree on the strings of this
  section (\<open>fuzzyScoreUnits_latin1\<close>).
\<close>

fun scoreLoop :: "string \<Rightarrow> string \<Rightarrow> int \<Rightarrow> nat \<Rightarrow> int" where
  "scoreLoop [] candidate score candidateIndex = score"
| "scoreLoop (char # rest) candidate score candidateIndex =
     (let target = toLowerChar char;
          matchIndex = indexOf candidate target candidateIndex
      in if matchIndex = -1 then -1
         else scoreLoop rest candidate
                (if matchIndex = int candidateIndex then score + 2 else score + 1)
                (nat matchIndex + 1))"

definition fuzzyScore :: "string \<Rightarrow> string \<Rightarrow> int" where
  "fuzzyScore query candidate =
     (let normalizedQuery = removeSpaces (toLowerCase query)
      in if normalizedQuery = [] then -1
         else scoreLoop normalizedQuery candidate 0 0)"

text \<open>The value \<open>-1\<close> is what the specification calls \<open>NO_MATCH\<close>.\<close>

abbreviation (input) NO_MATCH :: int where
  "NO_MATCH \<equiv> -1"

section \<open>The matcher on code units\<close>

text \<open>
  A string of the language is a sequence of 16-bit code units. A character outside the
  Basic Multilingual Plane is a surrogate pair: a high surrogate followed by a low one.
  \<^verbatim>\<open>for (const char of s)\<close> yields the code points of \<open>s\<close>, each as a string: a
  surrogate pair as a string of two units, any other unit (a surrogate without its
  partner too) as a string of one.
\<close>

type_synonym codeUnit = "16 word"

definition isHighSurrogate :: "codeUnit \<Rightarrow> bool" where
  "isHighSurrogate u \<longleftrightarrow> 0xD800 \<le> u \<and> u \<le> 0xDBFF"

definition isLowSurrogate :: "codeUnit \<Rightarrow> bool" where
  "isLowSurrogate u \<longleftrightarrow> 0xDC00 \<le> u \<and> u \<le> 0xDFFF"

fun codePoints :: "codeUnit list \<Rightarrow> codeUnit list list" where
  "codePoints [] = []"
| "codePoints [u] = [[u]]"
| "codePoints (u # v # rest) =
     (if isHighSurrogate u \<and> isLowSurrogate v then [u, v] # codePoints rest
      else [u] # codePoints (v # rest))"

text \<open>The white space of \<^verbatim>\<open>\s\<close>, all of it.\<close>

definition isSpaceUnit :: "codeUnit \<Rightarrow> bool" where
  "isSpaceUnit u \<longleftrightarrow>
     (9 \<le> u \<and> u \<le> 13) \<or> u = 32 \<or> u = 160 \<or> u = 0x1680 \<or>
     (0x2000 \<le> u \<and> u \<le> 0x200A) \<or> u = 0x2028 \<or> u = 0x2029 \<or> u = 0x202F \<or>
     u = 0x205F \<or> u = 0x3000 \<or> u = 0xFEFF"

definition removeSpacesUnits :: "codeUnit list \<Rightarrow> codeUnit list" where
  "removeSpacesUnits s = filter (\<lambda>u. \<not> isSpaceUnit u) s"

text \<open>
  \<^verbatim>\<open>s.indexOf(target, fromIndex)\<close> for any target: the least index at or after
  \<open>fromIndex\<close> where the target starts, and \<open>-1\<close> when there is none. An index past
  the end counts as the end, where only the empty target is found.
\<close>

fun firstOccurrence :: "codeUnit list \<Rightarrow> codeUnit list \<Rightarrow> nat option" where
  "firstOccurrence target [] = (if target = [] then Some 0 else None)"
| "firstOccurrence target (c # cs) =
     (if prefix target (c # cs) then Some 0
      else map_option Suc (firstOccurrence target cs))"

definition indexOfUnits :: "codeUnit list \<Rightarrow> codeUnit list \<Rightarrow> nat \<Rightarrow> int" where
  "indexOfUnits s target fromIndex =
     (let start = min fromIndex (length s)
      in case firstOccurrence target (drop start s) of
           None \<Rightarrow> -1
         | Some k \<Rightarrow> int (start + k))"

text \<open>
  \<^verbatim>\<open>fuzzyScore\<close> on every string. \<^verbatim>\<open>String.prototype.toLowerCase\<close> is the host's
  case mapping of Unicode, which is not part of the program: it is the parameter
  \<open>toLower\<close>. The loop runs over the code points of the normalised query; the target
  of \<^verbatim>\<open>indexOf\<close> is the lower-case form of one code point; the cursor moves to one
  code unit after the start of the match, whatever the length of the target.
\<close>

fun scoreLoopUnits ::
  "(codeUnit list \<Rightarrow> codeUnit list) \<Rightarrow> codeUnit list list \<Rightarrow> codeUnit list \<Rightarrow> int \<Rightarrow> nat \<Rightarrow> int" where
  "scoreLoopUnits toLower [] candidate score candidateIndex = score"
| "scoreLoopUnits toLower (char # rest) candidate score candidateIndex =
     (let target = toLower char;
          matchIndex = indexOfUnits candidate target candidateIndex
      in if matchIndex = -1 then -1
         else scoreLoopUnits toLower rest candidate
                (if matchIndex = int candidateIndex then score + 2 else score + 1)
                (nat matchIndex + 1))"

definition fuzzyScoreUnits ::
  "(codeUnit list \<Rightarrow> codeUnit list) \<Rightarrow> codeUnit list \<Rightarrow> codeUnit list \<Rightarrow> int" where
  "fuzzyScoreUnits toLower query candidate =
     (let normalizedQuery = removeSpacesUnits (toLower query)
      in if normalizedQuery = [] then -1
         else scoreLoopUnits toLower (codePoints normalizedQuery) candidate 0 0)"

text \<open>
  The strings of the first section are the strings whose code units are all below 256:
  \<open>units\<close> gives the code units of such a string. A case mapping agrees with the one
  of the first section when it maps these strings as \<^const>\<open>toLowerCase\<close> does.
\<close>

definition units :: "string \<Rightarrow> codeUnit list" where
  "units s = map of_char s"

definition agreesOnLatin1 :: "(codeUnit list \<Rightarrow> codeUnit list) \<Rightarrow> bool" where
  "agreesOnLatin1 toLower \<longleftrightarrow> (\<forall>s. toLower (units s) = units (toLowerCase s))"

text \<open>
  A string is in lower case when the case mapping leaves it unchanged, as a whole and
  character by character.
\<close>

definition inLowerCase :: "(codeUnit list \<Rightarrow> codeUnit list) \<Rightarrow> codeUnit list \<Rightarrow> bool" where
  "inLowerCase toLower s \<longleftrightarrow>
     toLower s = s \<and> list_all (\<lambda>char. toLower char = char) (codePoints s)"

text \<open>A string has no surrogate pair when each of its code points is one code unit.\<close>

definition noSurrogatePair :: "codeUnit list \<Rightarrow> bool" where
  "noSurrogatePair s \<longleftrightarrow> list_all (\<lambda>char. length char = 1) (codePoints s)"

text \<open>
  A case mapping for concrete runs: the code units below 256 are mapped as in the first
  section and every other unit is left alone. It is the host's mapping on the strings
  whose characters are below 256 or have no case, as the emoji have none.
\<close>

definition toLowerCaseLatin1 :: "codeUnit list \<Rightarrow> codeUnit list" where
  "toLowerCaseLatin1 s =
     map (\<lambda>u. if (65 \<le> u \<and> u \<le> 90) \<or> (192 \<le> u \<and> u \<le> 222 \<and> u \<noteq> 215) then u + 32 else u) s"

text \<open>The string of two copies of the character U+1F600, a surrogate pair each.\<close>

definition twoEmoji :: "codeUnit list" where
  "twoEmoji = [0xD83D, 0xDE00, 0xD83D, 0xDE00]"

section \<open>Command definitions and the registry\<close>

text \<open>
  What a thrown value is to the handler in \<^verbatim>\<open>main\<close>: an \<^verbatim>\<open>Error\<close> object with
  its message, or any other value, given by the text that \<^verbatim>\<open>String(error)\<close> makes
  of it.
\<close>

datatype thrown = ErrorObject string | OtherValue string

text \<open>
  What the program does that can be observed: a line written with \<^verbatim>\<open>console.log\<close>
  or \<^verbatim>\<open>console.error\<close> (the text without the line end that the console adds),
  the readline interface being created, a prompt written by \<^verbatim>\<open>rl.question\<close>, and
  the interface being closed.
\<close>

datatype event =
    Log string
  | LogError string
  | CreateInterface
  | Question string
  | CloseInterface

text \<open>
  A call of a command's \<^verbatim>\<open>run\<close> is given by what it wrote and by the value it threw,
  if it threw one; the awaited promise being rejected is the same as a throw to the
  caller.
\<close>

type_synonym run_outcome = "event list \<times> thrown option"

record CommandDefinition =
  name :: string
  description :: string
  usage :: "string option"
  aliases :: "string list option"
  run :: "string list \<Rightarrow> run_outcome"

text \<open>
  The registry \<^verbatim>\<open>commands\<close> holds one command. \<^verbatim>\<open>handleInit\<close> works on the file
  system, which is outside the model: its outcome is a parameter.
\<close>

definition initCommand :: "run_outcome \<Rightarrow> CommandDefinition" where
  "initCommand handleInit =
     \<lparr> name = ''init'',
       description = ''Create Taskfile.yml with dev task running bun dev'',
       usage = Some ''init'',
       aliases = None,
       run = (\<lambda>args.
         if length args > 0
         then ([], Some (ErrorObject (''Unexpected arguments for init: '' @ join '' '' args)))
         else handleInit) \<rparr>"

definition commands :: "run_outcome \<Rightarrow> CommandDefinition list" where
  "commands handleInit = [initCommand handleInit]"

text \<open>
  \<^verbatim>\<open>findCommand\<close> reads the module's registry; here the registry is its first
  argument. \<^verbatim>\<open>Array.prototype.find\<close> is \<^const>\<open>List.find\<close>, and \<open>undefined\<close> is
  \<^const>\<open>None\<close>.
\<close>

definition findCommand :: "CommandDefinition list \<Rightarrow> string \<Rightarrow> CommandDefinition option" where
  "findCommand registry input =
     (let normalized = toLowerCase input
      in List.find (\<lambda>command.
           if name command = normalized then True
           else case aliases command of
                  None \<Rightarrow> False
                | Some as \<Rightarrow> list_ex (\<lambda>alias. alias = normalized) as) registry)"

definition buildSearchText :: "CommandDefinition \<Rightarrow> string" where
  "buildSearchText command =
     (let aliasText = (case aliases command of None \<Rightarrow> [] | Some as \<Rightarrow> join '' '' as)
      in toLowerCase (name command @ '' '' @ aliasText @ '' '' @ description command))"

section \<open>The resolver: \<^verbatim>\<open>rankCommands\<close>\<close>

record RankedEntry =
  command :: CommandDefinition
  score :: int

text \<open>The tokens of a query: lower case, split at white space, empty fields dropped.\<close>

definition queryTokens :: "string \<Rightarrow> string list" where
  "queryTokens query = filter (\<lambda>token. length token > 0) (splitSpaces [] (toLowerCase query))"

text \<open>
  The \<^verbatim>\<open>for\<close> loop over the tokens inside the \<^verbatim>\<open>map\<close> callback, with its
  variable \<^verbatim>\<open>score\<close> (here \<open>acc\<close>); a token that does not match ends it with the score \<open>-1\<close>.
\<close>

fun tokenLoop :: "string list \<Rightarrow> string \<Rightarrow> int \<Rightarrow> int" where
  "tokenLoop [] searchText acc = acc"
| "tokenLoop (token # rest) searchText acc =
     (let tokenScore = fuzzyScore token searchText
      in if tokenScore < 0 then -1 else tokenLoop rest searchText (acc + tokenScore))"

definition scoreCommand :: "string list \<Rightarrow> CommandDefinition \<Rightarrow> RankedEntry" where
  "scoreCommand tokens cmd =
     \<lparr> command = cmd, score = tokenLoop tokens (buildSearchText cmd) 0 \<rparr>"

text \<open>
  \<^verbatim>\<open>Array.prototype.sort\<close> with a comparison function is a stable sort: an element
  goes before the elements it does not compare greater than, and elements that compare
  equal keep their order. Insertion from the right is such a sort.
\<close>

fun insertBy :: "('a \<Rightarrow> 'a \<Rightarrow> int) \<Rightarrow> 'a \<Rightarrow> 'a list \<Rightarrow> 'a list" where
  "insertBy cmp x [] = [x]"
| "insertBy cmp x (y # ys) = (if cmp x y \<le> 0 then x # y # ys else y # insertBy cmp x ys)"

definition sortBy :: "('a \<Rightarrow> 'a \<Rightarrow> int) \<Rightarrow> 'a list \<Rightarrow> 'a list" where
  "sortBy cmp xs = foldr (insertBy cmp) xs []"

text \<open>
  The comparison function handed to \<^verbatim>\<open>sort\<close>. \<^verbatim>\<open>String.prototype.localeCompare\<close>
  is the collation of the host's locale, which is not part of the program: it is the
  parameter \<open>localeCompare\<close> of everything that ranks.
\<close>

definition compareEntries :: "(string \<Rightarrow> string \<Rightarrow> int) \<Rightarrow> RankedEntry \<Rightarrow> RankedEntry \<Rightarrow> int" where
  "compareEntries localeCompare a b =
     (if score b \<noteq> score a then score b - score a
      else localeCompare (name (command a)) (name (command b)))"

definition rankCommands ::
  "(string \<Rightarrow> string \<Rightarrow> int) \<Rightarrow> string \<Rightarrow> CommandDefinition list \<Rightarrow> RankedEntry list" where
  "rankCommands localeCompare query definitions =
     (let tokens = queryTokens query
      in if length tokens = 0 then []
         else sortBy (compareEntries localeCompare)
                (filter (\<lambda>entry. score entry \<ge> 0) (map (scoreCommand tokens) definitions)))"

definition suggestClosestCommand ::
  "(string \<Rightarrow> string \<Rightarrow> int) \<Rightarrow> CommandDefinition list \<Rightarrow> string \<Rightarrow> CommandDefinition option" where
  "suggestClosestCommand localeCompare registry input =
     (case rankCommands localeCompare input registry of
        [] \<Rightarrow> None
      | best # _ \<Rightarrow> Some (command best))"

section \<open>The interactive selector: \<^verbatim>\<open>promptForCommand\<close>\<close>

text \<open>
  Where a session stands once the lines typed so far are used up: waiting at the search
  prompt, waiting at the selection prompt with the list it has shown, or returned. The
  specification's \<open>Cancelled\<close> is \<^verbatim>\<open>return undefined\<close>, its \<open>Done\<close> is the return
  of a command.
\<close>

datatype SelectorState =
    AwaitingQuery
  | AwaitingSelection "RankedEntry list"
  | Returned "CommandDefinition option"

abbreviation Cancelled :: SelectorState where
  "Cancelled \<equiv> Returned None"

abbreviation Done :: "CommandDefinition \<Rightarrow> SelectorState" where
  "Done c \<equiv> Returned (Some c)"

text \<open>
  \<^verbatim>\<open>Number.parseInt(s, 10)\<close>: leading white space is skipped, one sign is read, then
  the longest run of decimal digits; with no digit the result is \<open>NaN\<close>, here
  \<^const>\<open>None\<close>. The program only asks whether the result is an integer from 1 to at
  most 5, which the rounding of long digit strings to doubles does not change.
\<close>

definition isDigit :: "char \<Rightarrow> bool" where
  "isDigit c = (let n = (of_char c :: nat) in 48 \<le> n \<and> n \<le> 57)"

definition digitsValue :: "string \<Rightarrow> int" where
  "digitsValue ds = foldl (\<lambda>acc c. 10 * acc + (int (of_char c) - 48)) 0 ds"

definition parseInt :: "string \<Rightarrow> int option" where
  "parseInt s =
     (let s1 = dropWhile isSpace s;
          negative = (s1 \<noteq> [] \<and> hd s1 = CHR ''-'');
          s2 = (if s1 \<noteq> [] \<and> (hd s1 = CHR ''-'' \<or> hd s1 = CHR ''+'') then tl s1 else s1);
          digits = takeWhile isDigit s2
      in if digits = [] then None
         else Some (if negative then - digitsValue digits else digitsValue digits))"

text \<open>The decimal text of a number, as a template string writes \<^verbatim>\<open>index + 1\<close>.\<close>

fun showNat :: "nat \<Rightarrow> string" where
  "showNat n =
     (if n < 10 then [char_of (48 + n)]
      else showNat (n div 10) @ [char_of (48 + n mod 10)])"

definition searchPrompt :: string where
  "searchPrompt = ''Search command (Enter to cancel): ''"

definition selectPrompt :: string where
  "selectPrompt = ''Select command number (Enter to refine search): ''"

definition noMatchText :: string where
  "noMatchText = ''No matching commands. Try again.'' @ [CHR 0x0A]"

definition invalidSelectionText :: string where
  "invalidSelectionText = ''Invalid selection. Try again.'' @ [CHR 0x0A]"

definition showSuggestions :: "RankedEntry list \<Rightarrow> event list" where
  "showSuggestions suggestions =
     [Log [], Log ''Matches:''] @
     map (\<lambda>(index, entry).
            Log (''  '' @ showNat (index + 1) @ ''. '' @ name (command entry) @ ''  ''
                 @ description (command entry)))
         (enumerate 0 suggestions) @
     [Log []]"

text \<open>What was written before the rest of a session, put in front of it.\<close>

definition emit ::
  "event list \<Rightarrow> SelectorState \<times> event list \<times> string list
     \<Rightarrow> SelectorState \<times> event list \<times> string list" where
  "emit evs r = (case r of (st, evs', unread) \<Rightarrow> (st, evs @ evs', unread))"

text \<open>
  The \<^verbatim>\<open>while (true)\<close> loop of \<^verbatim>\<open>promptForCommand\<close>, run on the lines that the
  user types, in order. Each \<^verbatim>\<open>await question(...)\<close> writes its prompt and takes the
  next line; when there is none the session waits there. The result is where the
  session stands, what it wrote, and the lines it did not read.
\<close>

fun promptLoop ::
  "(string \<Rightarrow> string \<Rightarrow> int) \<Rightarrow> CommandDefinition list \<Rightarrow> string list
     \<Rightarrow> SelectorState \<times> event list \<times> string list" where
  "promptLoop localeCompare definitions [] = (AwaitingQuery, [Question searchPrompt], [])"
| "promptLoop localeCompare definitions (line # rest) =
     (let term = trim line
      in if term = [] then (Returned None, [Question searchPrompt], rest)
         else
           let ranked = rankCommands localeCompare term definitions
           in if length ranked = 0
              then emit [Question searchPrompt, Log noMatchText]
                     (promptLoop localeCompare definitions rest)
              else if length ranked = 1
              then (Returned (Some (command (ranked ! 0))), [Question searchPrompt], rest)
              else
                let suggestions = take (min 5 (length ranked)) ranked;
                    shown = [Question searchPrompt] @ showSuggestions suggestions
                            @ [Question selectPrompt]
                in case rest of
                     [] \<Rightarrow> (AwaitingSelection suggestions, shown, [])
                   | answer # rest' \<Rightarrow>
                       let selectionRaw = trim answer
                       in if selectionRaw = []
                          then emit shown (promptLoop localeCompare definitions rest')
                          else
                            (case parseInt selectionRaw of
                               Some selection \<Rightarrow>
                                 if selection \<ge> 1 \<and> selection \<le> int (length suggestions)
                                 then (Returned (Some (command (suggestions ! nat (selection - 1)))),
                                       shown, rest')
                                 else emit (shown @ [Log invalidSelectionText])
                                        (promptLoop localeCompare definitions rest')
                             | None \<Rightarrow>
                                 emit (shown @ [Log invalidSelectionText])
                                   (promptLoop localeCompare definitions rest')))"

text \<open>
  A session that waits can be taken up again when more lines are typed. From the
  selection prompt, with the list \<open>suggestions\<close> shown and \<open>shown\<close> written so far,
  the loop goes on with the rest of its body, after the second
  \<^verbatim>\<open>await question(...)\<close>. From the search prompt, which is the last thing written,
  it goes on as the loop itself.
\<close>

definition resumeSelection ::
  "(string \<Rightarrow> string \<Rightarrow> int) \<Rightarrow> CommandDefinition list \<Rightarrow> RankedEntry list \<Rightarrow> event list
     \<Rightarrow> string list \<Rightarrow> SelectorState \<times> event list \<times> string list" where
  "resumeSelection localeCompare definitions suggestions shown input =
     (case input of
        [] \<Rightarrow> (AwaitingSelection suggestions, shown, [])
      | answer # rest' \<Rightarrow>
          let selectionRaw = trim answer
          in if selectionRaw = []
             then emit shown (promptLoop localeCompare definitions rest')
             else
               (case parseInt selectionRaw of
                  Some selection \<Rightarrow>
                    if selection \<ge> 1 \<and> selection \<le> int (length suggestions)
                    then (Returned (Some (command (suggestions ! nat (selection - 1)))),
                          shown, rest')
                    else emit (shown @ [Log invalidSelectionText])
                           (promptLoop localeCompare definitions rest')
                | None \<Rightarrow>
                    emit (shown @ [Log invalidSelectionText])
                      (promptLoop localeCompare definitions rest')))"

definition resume ::
  "(string \<Rightarrow> string \<Rightarrow> int) \<Rightarrow> CommandDefinition list
     \<Rightarrow> SelectorState \<times> event list \<times> string list \<Rightarrow> string list
     \<Rightarrow> SelectorState \<times> event list \<times> string list" where
  "resume localeCompare definitions r input =
     (case r of
        (Returned c, evs, unread) \<Rightarrow> (Returned c, evs, unread @ input)
      | (AwaitingQuery, evs, unread) \<Rightarrow>
          emit (butlast evs) (promptLoop localeCompare definitions input)
      | (AwaitingSelection suggestions, evs, unread) \<Rightarrow>
          resumeSelection localeCompare definitions suggestions evs input)"

text \<open>
  \<^verbatim>\<open>promptForCommand\<close>: the guard on an empty list of definitions, the listing
  of the commands and the creation of the readline interface (\<open>listing\<close>), the loop,
  and the \<^verbatim>\<open>finally\<close> block that closes the interface when the function returns.
\<close>

definition listing :: "CommandDefinition list \<Rightarrow> event list" where
  "listing definitions =
     [Log ''Available commands:''] @
     map (\<lambda>c. Log (''  '' @ name c @ ''  '' @ description c)) definitions @
     [Log ([CHR 0x0A] @ ''Type to filter commands. Press Enter to cancel.'' @ [CHR 0x0A]),
      CreateInterface]"

definition promptForCommand ::
  "(string \<Rightarrow> string \<Rightarrow> int) \<Rightarrow> CommandDefinition list \<Rightarrow> string list
     \<Rightarrow> SelectorState \<times> event list \<times> string list" where
  "promptForCommand localeCompare definitions input =
     (if length definitions = 0 then (Returned None, [], input)
      else
        case promptLoop localeCompare definitions input of
          (Returned r, evs, unread) \<Rightarrow>
            (Returned r, listing definitions @ evs @ [CloseInterface], unread)
        | (st, evs, unread) \<Rightarrow> (st, listing definitions @ evs, unread))"

section \<open>The dispatcher: \<^verbatim>\<open>main\<close>\<close>

definition TOOL_NAME :: string where "TOOL_NAME = ''f''"
definition VERSION :: string where "VERSION = ''0.1.5''"
definition TAGLINE :: string where "TAGLINE = ''Move faster''"

definition padEnd :: "string \<Rightarrow> nat \<Rightarrow> string" where
  "padEnd s width = s @ replicate (width - length s) CHR '' ''"

definition printGeneralHelp :: "CommandDefinition list \<Rightarrow> event list" where
  "printGeneralHelp registry =
     (let nameWidth = foldl (\<lambda>width c. max width (length (name c))) 0 registry
      in [Log (TOOL_NAME @ '' '' @ VERSION),
          Log (TAGLINE @ [CHR 0x0A]),
          Log ''Usage:'',
          Log (''  '' @ TOOL_NAME @ '' <command> [options]''),
          Log (''  '' @ TOOL_NAME @ '' --help''),
          Log (''  '' @ TOOL_NAME @ '' --version'' @ [CHR 0x0A]),
          Log ''Commands:''] @
         map (\<lambda>c. Log (''  '' @ padEnd (name c) nameWidth @ ''  '' @ description c)) registry @
         [Log ([CHR 0x0A] @ ''Run '' @ [CHR 0x60] @ TOOL_NAME @ '' <command> --help'' @ [CHR 0x60]
               @ '' for command details.'')])"

definition printCommandHelp :: "CommandDefinition \<Rightarrow> event list" where
  "printCommandHelp c =
     [Log (TOOL_NAME @ '' '' @ VERSION),
      Log (name c @ [CHR 0x0A]),
      Log (description c @ [CHR 0x0A]),
      Log ''Usage:'',
      Log (''  '' @ TOOL_NAME @ '' '' @ (case usage c of Some u \<Rightarrow> u | None \<Rightarrow> name c))]"

definition executeCommand :: "CommandDefinition \<Rightarrow> string list \<Rightarrow> run_outcome" where
  "executeCommand c args = run c args"

text \<open>The process as \<^verbatim>\<open>main\<close> finds it, and as it leaves it.\<close>

record Process =
  argv :: "string list"
  stdinIsTTY :: bool
  stdoutIsTTY :: bool
  stdinLines :: "string list"

record Outcome =
  written :: "event list"
  exitCode :: nat
  awaitingInput :: bool

definition unknownCommand ::
  "(string \<Rightarrow> string \<Rightarrow> int) \<Rightarrow> CommandDefinition list \<Rightarrow> string \<Rightarrow> event list" where
  "unknownCommand localeCompare registry given =
     [LogError (''Unknown command: '' @ given)] @
     (case suggestClosestCommand localeCompare registry given of
        Some suggestion \<Rightarrow> [LogError (''Did you mean '' @ [CHR 0x22] @ name suggestion @ [CHR 0x22] @ ''?'')]
      | None \<Rightarrow> [])"

text \<open>
  The \<^verbatim>\<open>try\<close> block of \<^verbatim>\<open>main\<close>: what it wrote, the exit code it left, whether it
  is still waiting for a line, and the value that left the block by a throw, if one
  did. \<open>argv\<close> is \<^verbatim>\<open>process.argv.slice(2)\<close>.
\<close>

definition mainBody ::
  "(string \<Rightarrow> string \<Rightarrow> int) \<Rightarrow> CommandDefinition list \<Rightarrow> Process
     \<Rightarrow> Outcome \<times> thrown option" where
  "mainBody localeCompare registry p =
     (let quiet = \<lambda>evs. (\<lparr> written = evs, exitCode = 0, awaitingInput = False \<rparr>, None)
      in case argv p of
        [] \<Rightarrow>
          if \<not> stdinIsTTY p \<or> \<not> stdoutIsTTY p then quiet (printGeneralHelp registry)
          else
            (case promptForCommand localeCompare registry (stdinLines p) of
               (Returned None, evs, unread) \<Rightarrow> quiet evs
             | (Returned (Some selection), evs, unread) \<Rightarrow>
                 (case executeCommand selection [] of
                    (out, err) \<Rightarrow>
                      (\<lparr> written = evs @ out, exitCode = 0, awaitingInput = False \<rparr>, err))
             | (st, evs, unread) \<Rightarrow>
                 (\<lparr> written = evs, exitCode = 0, awaitingInput = True \<rparr>, None))
      | commandName # commandArgs \<Rightarrow>
          if commandArgs = [] \<and> (commandName = ''--version'' \<or> commandName = ''-v'')
          then quiet [Log VERSION]
          else if commandArgs = [] \<and> (commandName = ''--help'' \<or> commandName = ''-h'')
          then quiet (printGeneralHelp registry)
          else if commandName = ''help''
          then
            (case commandArgs of
               [] \<Rightarrow> quiet (printGeneralHelp registry)
             | target # others \<Rightarrow>
                 if target = [] then quiet (printGeneralHelp registry)
                 else
                   (case findCommand registry target of
                      None \<Rightarrow>
                        (\<lparr> written = unknownCommand localeCompare registry target,
                           exitCode = 1, awaitingInput = False \<rparr>, None)
                    | Some c \<Rightarrow> quiet (printCommandHelp c)))
          else
            (case findCommand registry commandName of
               None \<Rightarrow>
                 (\<lparr> written = unknownCommand localeCompare registry commandName,
                    exitCode = 1, awaitingInput = False \<rparr>, None)
             | Some c \<Rightarrow>
                 if list_ex (\<lambda>v. v = ''--help'' \<or> v = ''-h'') commandArgs
                 then quiet (printCommandHelp c)
                 else
                   (case executeCommand c commandArgs of
                      (out, err) \<Rightarrow>
                        (\<lparr> written = out, exitCode = 0, awaitingInput = False \<rparr>, err))))"

text \<open>
  The \<^verbatim>\<open>catch\<close> clause: the message of an \<^verbatim>\<open>Error\<close>, or \<^verbatim>\<open>String(error)\<close>,
  goes to \<^verbatim>\<open>console.error\<close> and the exit code becomes 1.
\<close>

definition errorText :: "thrown \<Rightarrow> string" where
  "errorText e = (case e of ErrorObject message \<Rightarrow> message | OtherValue text \<Rightarrow> text)"

definition main ::
  "(string \<Rightarrow> string \<Rightarrow> int) \<Rightarrow> CommandDefinition list \<Rightarrow> Process \<Rightarrow> Outcome" where
  "main localeCompare registry p =
     (case mainBody localeCompare registry p of
        (r, None) \<Rightarrow> r
      | (r, Some error) \<Rightarrow>
          r\<lparr> written := written r @ [LogError (errorText error)], exitCode := 1 \<rparr>)"

section \<open>Notions used to state the properties\<close>

text \<open>The aliases of a command, none when the field is absent.\<close>

definition aliasList :: "CommandDefinition \<Rightarrow> string list" where
  "aliasList c = (case aliases c of None \<Rightarrow> [] | Some as \<Rightarrow> as)"

text \<open>
  Case variants, said without the case mapping: two characters are the same letter when
  they are equal, or when one is a capital letter and the other is the code unit 32
  higher; a string is a case variant of another one when they have the same length and
  the same letter at every place.
\<close>

definition isCapital :: "char \<Rightarrow> bool" where
  "isCapital c =
     (let n = (of_char c :: nat)
      in (65 \<le> n \<and> n \<le> 90) \<or> (192 \<le> n \<and> n \<le> 222 \<and> n \<noteq> 215))"

definition sameLetter :: "char \<Rightarrow> char \<Rightarrow> bool" where
  "sameLetter a b \<longleftrightarrow>
     a = b \<or> (isCapital a \<and> (of_char b :: nat) = of_char a + 32)
           \<or> (isCapital b \<and> (of_char a :: nat) = of_char b + 32)"

definition caseVariant :: "string \<Rightarrow> string \<Rightarrow> bool" where
  "caseVariant u v \<longleftrightarrow> list_all2 sameLetter u v"

text \<open>
  An input matches a command without regard to case when it is a case variant of the
  name or of one of the aliases.
\<close>

definition matchesIgnoringCase :: "CommandDefinition \<Rightarrow> string \<Rightarrow> bool" where
  "matchesIgnoringCase c input \<longleftrightarrow>
     caseVariant input (name c) \<or> list_ex (caseVariant input) (aliasList c)"

text \<open>A registry keeps its names and aliases in lower case, as the program's own does.\<close>

definition storedInLowerCase :: "CommandDefinition list \<Rightarrow> bool" where
  "storedInLowerCase registry \<longleftrightarrow>
     list_all (\<lambda>c. toLowerCase (name c) = name c \<and>
                    list_all (\<lambda>alias. toLowerCase alias = alias) (aliasList c)) registry"

text \<open>
  The tokens of a string as the specification has them: white space is skipped, the
  longest run of characters that are not white space is a token, and so on after it.
\<close>

function whitespaceTokens :: "string \<Rightarrow> string list" where
  "whitespaceTokens s =
     (case dropWhile isSpace s of
        [] \<Rightarrow> []
      | c # cs \<Rightarrow>
          takeWhile (\<lambda>x. \<not> isSpace x) (c # cs)
            # whitespaceTokens (dropWhile (\<lambda>x. \<not> isSpace x) (c # cs)))"
  by pat_completeness auto
termination
proof (relation "measure length", goal_cases)
  case 1
  show ?case by simp
next
  case (2 s c cs)
  then have "dropWhile isSpace s \<noteq> []" by simp
  then have "\<not> isSpace (hd (dropWhile isSpace s))" by (rule hd_dropWhile)
  with 2 have "\<not> isSpace c" by simp
  then have "length (dropWhile (\<lambda>x. \<not> isSpace x) (c # cs)) \<le> length cs"
    by (simp add: length_dropWhile_le)
  moreover have "length (c # cs) \<le> length s"
    using length_dropWhile_le [of isSpace s] 2 by simp
  ultimately show ?case by simp
qed

declare whitespaceTokens.simps [simp del]

text \<open>
  What is asked of the host's \<^verbatim>\<open>localeCompare\<close>: it is a consistent comparison in
  the sense of the language standard. The sign flips when the arguments are swapped,
  and "not after" is transitive.
\<close>

definition consistentComparator :: "(string \<Rightarrow> string \<Rightarrow> int) \<Rightarrow> bool" where
  "consistentComparator localeCompare \<longleftrightarrow>
     (\<forall>a b. localeCompare a b < 0 \<longleftrightarrow> localeCompare b a > 0) \<and>
     (\<forall>a b c. localeCompare a b \<le> 0 \<and> localeCompare b c \<le> 0 \<longrightarrow> localeCompare a c \<le> 0)"

text \<open>
  The order that the program gives to a ranking: the higher score first, and among equal
  scores the name that the host's comparison does not put after the other one, the
  names being compared as they are stored. The order is strict when the name comes
  before the other one.
\<close>

definition rankedAsStored :: "(string \<Rightarrow> string \<Rightarrow> int) \<Rightarrow> RankedEntry \<Rightarrow> RankedEntry \<Rightarrow> bool" where
  "rankedAsStored localeCompare a b \<longleftrightarrow>
     score a > score b \<or>
     (score a = score b \<and> localeCompare (name (command a)) (name (command b)) \<le> 0)"

definition rankedStrictlyAsStored ::
  "(string \<Rightarrow> string \<Rightarrow> int) \<Rightarrow> RankedEntry \<Rightarrow> RankedEntry \<Rightarrow> bool" where
  "rankedStrictlyAsStored localeCompare a b \<longleftrightarrow>
     score a > score b \<or>
     (score a = score b \<and> localeCompare (name (command a)) (name (command b)) < 0)"

text \<open>No two definitions have names that the host's comparison takes for equal.\<close>

definition distinctUnderCollation ::
  "(string \<Rightarrow> string \<Rightarrow> int) \<Rightarrow> CommandDefinition list \<Rightarrow> bool" where
  "distinctUnderCollation localeCompare definitions \<longleftrightarrow>
     distinct definitions \<and>
     (\<forall>a\<in>set definitions. \<forall>b\<in>set definitions.
        a \<noteq> b \<longrightarrow> localeCompare (name a) (name b) \<noteq> 0)"

text \<open>
  The order that the specification gives to a ranking: the higher score first, and among
  equal scores the name that comes first without regard to case. The comparison without
  regard to case is the comparison of the lower-case forms; the names are distinct
  without regard to case when no two of them compare equal in it.
\<close>

definition compareIgnoringCase :: "(string \<Rightarrow> string \<Rightarrow> int) \<Rightarrow> string \<Rightarrow> string \<Rightarrow> int" where
  "compareIgnoringCase localeCompare a b = localeCompare (toLowerCase a) (toLowerCase b)"

definition distinctIgnoringCase ::
  "(string \<Rightarrow> string \<Rightarrow> int) \<Rightarrow> CommandDefinition list \<Rightarrow> bool" where
  "distinctIgnoringCase localeCompare definitions \<longleftrightarrow>
     distinct definitions \<and>
     (\<forall>a\<in>set definitions. \<forall>b\<in>set definitions.
        a \<noteq> b \<longrightarrow> compareIgnoringCase localeCompare (name a) (name b) \<noteq> 0)"

definition rankedBefore :: "(string \<Rightarrow> string \<Rightarrow> int) \<Rightarrow> RankedEntry \<Rightarrow> RankedEntry \<Rightarrow> bool" where
  "rankedBefore localeCompare a b \<longleftrightarrow>
     score a > score b \<or>
     (score a = score b \<and>
      compareIgnoringCase localeCompare (name (command a)) (name (command b)) < 0)"

text \<open>
  A collation of the kind the host has, for letters: strings are compared by their base
  letters first, place by place, where a capital letter has the base of its small
  letter and the ordinal indicators (the code units 170 and 186) have the bases \<open>a\<close>
  and \<open>o\<close>; strings with the same base letters are compared by the kind of their
  letters, place by place, a small letter before a capital letter before an ordinal
  indicator. On the two names \<open>Aa\<close> and \<open>a\<close> followed by the code unit 170, and on
  their lower-case forms, it orders as the host's \<^verbatim>\<open>localeCompare\<close> does.
\<close>

definition baseLetter :: "char \<Rightarrow> char" where
  "baseLetter c =
     (if c = CHR 0xAA then CHR ''a'' else if c = CHR 0xBA then CHR ''o'' else toLowerChar c)"

definition letterKind :: "char \<Rightarrow> nat" where
  "letterKind c = (if c = CHR 0xAA \<or> c = CHR 0xBA then 2 else if isCapital c then 1 else 0)"

definition lettersCollation :: "string \<Rightarrow> string \<Rightarrow> int" where
  "lettersCollation a b =
     (if (map baseLetter a, map letterKind a) < (map baseLetter b, map letterKind b) then -1
      else if (map baseLetter b, map letterKind b) < (map baseLetter a, map letterKind a) then 1
      else 0)"

text \<open>
  A collation for concrete runs: strings are compared by their lower-case forms, code
  unit by code unit, and two strings with the same lower-case form by their own code
  units.
\<close>

definition sampleCollation :: "string \<Rightarrow> string \<Rightarrow> int" where
  "sampleCollation a b =
     (if (toLowerCase a, a) < (toLowerCase b, b) then -1
      else if (toLowerCase b, b) < (toLowerCase a, a) then 1
      else 0)"

text \<open>The two commands of the specification's first scenario, which run nothing.\<close>

definition scenarioInit :: CommandDefinition where
  "scenarioInit =
     \<lparr> name = ''init'', description = ''Create manifest'', usage = None, aliases = None,
       run = (\<lambda>args. ([], None)) \<rparr>"

definition scenarioInstall :: CommandDefinition where
  "scenarioInstall =
     \<lparr> name = ''install'', description = ''Install deps'', usage = None, aliases = None,
       run = (\<lambda>args. ([], None)) \<rparr>"

text \<open>A command with aliases, and two commands whose names differ in more than case.\<close>

definition scenarioMake :: CommandDefinition where
  "scenarioMake =
     \<lparr> name = ''make'', description = ''Compile'', usage = None,
       aliases = Some [''build'', ''b''], run = (\<lambda>args. ([], None)) \<rparr>"

definition capitalNamed :: CommandDefinition where
  "capitalNamed =
     \<lparr> name = ''Aa'', description = ''first'', usage = None, aliases = None,
       run = (\<lambda>args. ([], None)) \<rparr>"

definition ordinalNamed :: CommandDefinition where
  "ordinalNamed =
     \<lparr> name = [CHR ''a'', CHR 0xAA], description = ''second'', usage = None, aliases = None,
       run = (\<lambda>args. ([], None)) \<rparr>"

text \<open>The number of lines that a text takes on the terminal when the console writes it.\<close>

definition printedLines :: "string \<Rightarrow> nat" where
  "printedLines text = Suc (length (filter (\<lambda>c. c = CHR 0x0A) text))"

text \<open>Observers of a session's state.\<close>

definition isAwaitingQuery :: "SelectorState \<Rightarrow> bool" where
  "isAwaitingQuery st = (case st of AwaitingQuery \<Rightarrow> True | _ \<Rightarrow> False)"

definition presentedNames :: "SelectorState \<Rightarrow> string list option" where
  "presentedNames st =
     (case st of AwaitingSelection shown \<Rightarrow> Some (map (\<lambda>e. name (command e)) shown) | _ \<Rightarrow> None)"

definition returnedName :: "SelectorState \<Rightarrow> string option option" where
  "returnedName st = (case st of Returned r \<Rightarrow> Some (map_option name r) | _ \<Rightarrow> None)"

section \<open>Facts about the string primitives\<close>

lemma toLowerChar_idem: "toLowerChar (toLowerChar c) = toLowerChar c"
  by (auto simp: toLowerChar_def Let_def)

lemma toLowerCase_idem: "toLowerCase (toLowerCase s) = toLowerCase s"
  by (simp add: toLowerCase_def toLowerChar_idem)

lemma isSpace_toLowerChar: "isSpace (toLowerChar c) = isSpace c"
  by (auto simp: toLowerChar_def isSpace_def Let_def)

lemma firstIndex_None_iff: "firstIndex t ys = None \<longleftrightarrow> t \<notin> set ys"
  by (induction ys) auto

lemma firstIndex_Some_less: "firstIndex t ys = Some k \<Longrightarrow> k < length ys"
  by (induction ys arbitrary: k) (auto split: if_splits)


section \<open>Facts about the scoring loop\<close>

lemma indexOf_neg_iff: "indexOf s t i = -1 \<longleftrightarrow> firstIndex t (drop i s) = None"
  by (simp add: indexOf_def split: option.splits)

lemma scoreLoop_range:
  "scoreLoop qs cand s i = -1 \<or>
   (s + int (length qs) \<le> scoreLoop qs cand s i \<and> scoreLoop qs cand s i \<le> s + 2 * int (length qs))"
proof (induction qs arbitrary: s i)
  case Nil
  show ?case by simp
next
  case (Cons q qs)
  show ?case
  proof (cases "firstIndex (toLowerChar q) (drop i cand)")
    case None
    then show ?thesis by (simp add: indexOf_def)
  next
    case (Some k)
    show ?thesis
      using Cons.IH [of "if k = 0 then s + 2 else s + 1" "i + k + 1"] Some
      by (auto simp: indexOf_def Let_def nat_add_distrib)
  qed
qed


lemma scoreLoop_prefix:
  "prefix (map toLowerChar qs) (drop i cand) \<Longrightarrow> scoreLoop qs cand s i = s + 2 * int (length qs)"
proof (induction qs arbitrary: s i)
  case Nil
  then show ?case by simp
next
  case (Cons q qs)
  from Cons.prems obtain rest where dr: "drop i cand = toLowerChar q # rest"
    and pr: "prefix (map toLowerChar qs) rest"
    by (cases "drop i cand") auto
  have "rest = drop (Suc i) cand"
    using dr by (metis drop_Suc list.sel(3) tl_drop)
  with pr have "prefix (map toLowerChar qs) (drop (i + 1) cand)" by simp
  from Cons.IH [OF this, of "s + 2"] show ?case
    using dr by (simp add: indexOf_def Let_def)
qed

lemma scoreLoop_max_prefix:
  "scoreLoop qs cand s i = s + 2 * int (length qs) \<Longrightarrow> s \<ge> 0 \<Longrightarrow> prefix (map toLowerChar qs) (drop i cand)"
proof (induction qs arbitrary: s i)
  case Nil
  then show ?case by simp
next
  case (Cons q qs)
  show ?case
  proof (cases "firstIndex (toLowerChar q) (drop i cand)")
    case None
    then show ?thesis using Cons.prems by (simp add: indexOf_def)
  next
    case (Some k)
    have step: "scoreLoop (q # qs) cand s i =
                scoreLoop qs cand (if k = 0 then s + 2 else s + 1) (i + k + 1)"
      using Some by (simp add: indexOf_def Let_def nat_add_distrib)
    show ?thesis
    proof (cases "k = 0")
      case True
      then have "scoreLoop qs cand (s + 2) (i + 1) = (s + 2) + 2 * int (length qs)"
        using step Cons.prems by simp
      from Cons.IH [OF this] Cons.prems have p: "prefix (map toLowerChar qs) (drop (i + 1) cand)" by simp
      from Some True obtain rest where dr: "drop i cand = toLowerChar q # rest"
        by (cases "drop i cand") (auto split: if_splits)
      have "rest = drop (Suc i) cand"
        using dr by (metis drop_Suc list.sel(3) tl_drop)
      then show ?thesis using p dr by simp
    next
      case False
      have "scoreLoop qs cand (s + 1) (i + k + 1) = -1 \<or> scoreLoop qs cand (s + 1) (i + k + 1) \<le> (s + 1) + 2 * int (length qs)"
        using scoreLoop_range [of qs cand "s + 1" "i + k + 1"] by auto
      then show ?thesis using step False Cons.prems by auto
    qed
  qed
qed

section \<open>The matcher's contract\<close>


lemma normalized_lower:
  "map toLowerChar (removeSpaces (toLowerCase query)) = removeSpaces (toLowerCase query)"
  by (simp add: removeSpaces_def toLowerCase_def filter_map comp_def toLowerChar_idem
      isSpace_toLowerChar)



text \<open>
  On the strings of the first section, where a character is one code unit, the score of
  a string against itself and the bounds of a score are as the specification has them.
\<close>

lemma fuzzyScore_self:
  assumes "s \<noteq> []" and "toLowerCase s = s" and "\<forall>c\<in>set s. \<not> isSpace c"
  shows "fuzzyScore s s = 2 * int (length s)"
proof -
  have nq: "removeSpaces (toLowerCase s) = s"
    using assms(2,3) by (simp add: removeSpaces_def)
  have "map toLowerChar s = s" using assms(2) by (simp add: toLowerCase_def)
  then have "scoreLoop s s 0 0 = 0 + 2 * int (length s)"
    using scoreLoop_prefix [of s 0 s 0] by simp
  with nq assms(1) show ?thesis by (simp add: fuzzyScore_def)
qed

lemma fuzzyScore_bounds:
  assumes "fuzzyScore query candidate \<noteq> NO_MATCH"
  shows "int (length (removeSpaces (toLowerCase query))) \<le> fuzzyScore query candidate
       \<and> fuzzyScore query candidate \<le> 2 * int (length (removeSpaces (toLowerCase query)))
       \<and> (prefix (removeSpaces (toLowerCase query)) candidate \<longleftrightarrow>
            fuzzyScore query candidate = 2 * int (length (removeSpaces (toLowerCase query))))"
proof -
  let ?nq = "removeSpaces (toLowerCase query)"
  from assms have eq: "fuzzyScore query candidate = scoreLoop ?nq candidate 0 0"
    by (auto simp: fuzzyScore_def Let_def split: if_splits)
  from assms eq have "scoreLoop ?nq candidate 0 0 \<noteq> -1" by simp
  with scoreLoop_range [of ?nq candidate 0 0]
  have r: "int (length ?nq) \<le> scoreLoop ?nq candidate 0 0"
          "scoreLoop ?nq candidate 0 0 \<le> 2 * int (length ?nq)" by auto
  have "prefix ?nq candidate \<longleftrightarrow> scoreLoop ?nq candidate 0 0 = 2 * int (length ?nq)"
    using scoreLoop_prefix [of ?nq 0 candidate 0] scoreLoop_max_prefix [of ?nq candidate 0 0]
    by (auto simp: normalized_lower)
  with r eq show ?thesis by simp
qed

section \<open>The matcher on code units and the matcher of the first section\<close>

text \<open>
  On the strings whose code units are below 256, iterating by code points is iterating
  by code units and every target of \<^verbatim>\<open>indexOf\<close> is one unit long: for any case
  mapping that agrees with the one of the first section there, \<open>fuzzyScoreUnits\<close>
  is \<^const>\<open>fuzzyScore\<close>.
\<close>

lemma of_char_le_255: "(of_char c :: nat) \<le> 255"
  using nat_of_char_less_256 [of c] by linarith

lemma unat_of_char: "unat (of_char c :: 16 word) = of_char c"
proof -
  have "(of_char c :: 16 word) = of_nat (of_char c)" by (simp add: of_nat_of_char)
  moreover have "(of_char c :: nat) < 65536"
    using of_char_le_255 [of c] by linarith
  ultimately show ?thesis by (simp add: unat_of_nat)
qed

lemma of_char_unit_eq_iff: "(of_char a :: 16 word) = of_char b \<longleftrightarrow> a = b"
proof
  assume "(of_char a :: 16 word) = of_char b"
  then have "unat (of_char a :: 16 word) = unat (of_char b :: 16 word)" by simp
  then show "a = b" by (simp add: unat_of_char)
qed simp

lemma isSpaceUnit_of_char: "isSpaceUnit (of_char c) = isSpace c"
  using of_char_le_255 [of c]
  by (auto simp add: isSpaceUnit_def isSpace_def Let_def word_le_nat_alt word_unat_eq_iff
      unat_of_char)

lemma not_surrogate_of_char: "\<not> isHighSurrogate (of_char c)"
  using of_char_le_255 [of c]
  by (auto simp add: isHighSurrogate_def word_le_nat_alt unat_of_char)

lemma toLowerUnit_of_char:
  "(if (65 \<le> (of_char c :: 16 word) \<and> (of_char c :: 16 word) \<le> 90)
       \<or> (192 \<le> (of_char c :: 16 word) \<and> (of_char c :: 16 word) \<le> 222 \<and> (of_char c :: 16 word) \<noteq> 215)
    then (of_char c :: 16 word) + 32 else of_char c) = of_char (toLowerChar c)"
proof -
  let ?n = "of_char c :: nat"
  have w: "(of_char c :: 16 word) = of_nat ?n" by (simp add: of_nat_of_char)
  have c: "((65 \<le> (of_char c :: 16 word) \<and> (of_char c :: 16 word) \<le> 90)
       \<or> (192 \<le> (of_char c :: 16 word) \<and> (of_char c :: 16 word) \<le> 222 \<and> (of_char c :: 16 word) \<noteq> 215))
      \<longleftrightarrow> ((65 \<le> ?n \<and> ?n \<le> 90) \<or> (192 \<le> ?n \<and> ?n \<le> 222 \<and> ?n \<noteq> 215))"
    by (simp add: word_le_nat_alt word_unat_eq_iff unat_of_char)
  show ?thesis
  proof (cases "(65 \<le> ?n \<and> ?n \<le> 90) \<or> (192 \<le> ?n \<and> ?n \<le> 222 \<and> ?n \<noteq> 215)")
    case True
    then have "?n + 32 < 256" by auto
    then have "(of_char (char_of (?n + 32)) :: nat) = ?n + 32" by simp
    then have "(of_char (char_of (?n + 32)) :: 16 word) = of_nat (?n + 32)"
      by (metis of_nat_of_char)
    with True c show ?thesis
      unfolding toLowerChar_def Let_def by (simp add: w)
  next
    case False
    then have same: "toLowerChar c = c" by (auto simp: toLowerChar_def Let_def)
    from False c have "\<not> ((65 \<le> (of_char c :: 16 word) \<and> (of_char c :: 16 word) \<le> 90)
       \<or> (192 \<le> (of_char c :: 16 word) \<and> (of_char c :: 16 word) \<le> 222 \<and> (of_char c :: 16 word) \<noteq> 215))"
      by blast
    then show ?thesis unfolding same by simp
  qed
qed

lemma toLowerCaseLatin1_units: "toLowerCaseLatin1 (units s) = units (toLowerCase s)"
  by (simp add: toLowerCaseLatin1_def units_def toLowerCase_def toLowerUnit_of_char)

lemma agreesOnLatin1_sample: "agreesOnLatin1 toLowerCaseLatin1"
  by (simp add: agreesOnLatin1_def toLowerCaseLatin1_units)

lemma removeSpacesUnits_units: "removeSpacesUnits (units s) = units (removeSpaces s)"
  by (simp add: removeSpacesUnits_def removeSpaces_def units_def filter_map comp_def
      isSpaceUnit_of_char)

lemma codePoints_no_high:
  "\<forall>u\<in>set s. \<not> isHighSurrogate u \<Longrightarrow> codePoints s = map (\<lambda>u. [u]) s"
  by (induction s rule: codePoints.induct) auto

lemma codePoints_units: "codePoints (units s) = map (\<lambda>c. [of_char c]) s"
  by (simp add: codePoints_no_high units_def not_surrogate_of_char comp_def)

lemma firstOccurrence_unit:
  "firstOccurrence [of_char t] (units s) = firstIndex t s"
  by (induction s) (auto simp: units_def of_char_unit_eq_iff)

lemma indexOfUnits_unit:
  "indexOfUnits (units s) [of_char t] i = indexOf s t i"
proof (cases "i \<le> length s")
  case True
  then have "min i (length (units s)) = i" by (simp add: units_def)
  moreover have "drop i (units s) = units (drop i s)" by (simp add: units_def drop_map)
  ultimately show ?thesis
    by (simp add: indexOfUnits_def indexOf_def firstOccurrence_unit)
next
  case False
  then have "drop (min i (length (units s))) (units s) = []" by (simp add: units_def)
  with False show ?thesis by (simp add: indexOfUnits_def indexOf_def)
qed

lemma scoreLoopUnits_latin1:
  assumes "agreesOnLatin1 toLower"
  shows "scoreLoopUnits toLower (map (\<lambda>c. [of_char c]) qs) (units cand) sc i
         = scoreLoop qs cand sc i"
proof (induction qs arbitrary: sc i)
  case Nil
  show ?case by simp
next
  case (Cons q qs)
  have "toLower (units [q]) = units (toLowerCase [q])"
    using assms by (simp add: agreesOnLatin1_def)
  then have t: "toLower [of_char q] = [of_char (toLowerChar q)]"
    by (simp add: units_def toLowerCase_def)
  show ?case
    by (simp add: t indexOfUnits_unit Cons.IH Let_def)
qed

lemma fuzzyScoreUnits_latin1:
  assumes "agreesOnLatin1 toLower"
  shows "fuzzyScoreUnits toLower (units query) (units candidate) = fuzzyScore query candidate"
proof -
  have l: "toLower (units query) = units (toLowerCase query)"
    using assms by (simp add: agreesOnLatin1_def)
  have e: "units (removeSpaces (toLowerCase query)) = [] \<longleftrightarrow> removeSpaces (toLowerCase query) = []"
    by (simp add: units_def)
  show ?thesis
    by (simp add: fuzzyScoreUnits_def fuzzyScore_def l removeSpacesUnits_units codePoints_units e
        scoreLoopUnits_latin1 [OF assms] Let_def)
qed

lemma concat_codePoints: "concat (codePoints s) = s"
  by (induction s rule: codePoints.induct) auto

lemma codePoints_single:
  "noSurrogatePair s \<Longrightarrow> codePoints s = map (\<lambda>u. [u]) s"
  unfolding noSurrogatePair_def
  by (induction s rule: codePoints.induct) auto

lemma indexOfUnits_here:
  assumes "drop i cand = u # rest"
  shows "indexOfUnits cand [u] i = int i"
proof -
  from assms have "i < length cand" by (metis drop_all list.distinct(1) not_le)
  then have "min i (length cand) = i" by simp
  with assms show ?thesis by (simp add: indexOfUnits_def)
qed

lemma scoreLoopUnits_prefix:
  assumes "\<forall>u\<in>set qs. toLower [u] = [u]"
  shows "prefix qs (drop i cand) \<Longrightarrow>
         scoreLoopUnits toLower (map (\<lambda>u. [u]) qs) cand sc i = sc + 2 * int (length qs)"
  using assms
proof (induction qs arbitrary: sc i)
  case Nil
  show ?case by simp
next
  case (Cons q qs)
  from Cons.prems(1) obtain rest where dr: "drop i cand = q # rest"
    and pr: "prefix qs rest"
    by (cases "drop i cand") auto
  have "rest = drop (Suc i) cand"
    using dr by (metis drop_Suc list.sel(3) tl_drop)
  with pr have p: "prefix qs (drop (i + 1) cand)" by simp
  from Cons.prems(2) have q: "toLower [q] = [q]" and qs: "\<forall>u\<in>set qs. toLower [u] = [u]"
    by simp_all
  from Cons.IH [OF p qs, of "sc + 2"] show ?case
    by (simp add: q indexOfUnits_here [OF dr] Let_def)
qed

lemma scoreLoopUnits_range:
  "scoreLoopUnits toLower chars cand sc i = -1 \<or>
   (sc + int (length chars) \<le> scoreLoopUnits toLower chars cand sc i
    \<and> scoreLoopUnits toLower chars cand sc i \<le> sc + 2 * int (length chars))"
proof (induction chars arbitrary: sc i)
  case Nil
  show ?case by simp
next
  case (Cons ch chars)
  show ?case
  proof (cases "indexOfUnits cand (toLower ch) i = -1")
    case True
    then show ?thesis by simp
  next
    case False
    show ?thesis
      using Cons.IH [of "if indexOfUnits cand (toLower ch) i = int i then sc + 2 else sc + 1"
          "nat (indexOfUnits cand (toLower ch) i) + 1"] False
      by (auto simp: Let_def)
  qed
qed

lemma fuzzyScoreUnits_code_points:
  assumes "fuzzyScoreUnits toLower query candidate \<noteq> NO_MATCH"
  shows "int (length (codePoints (removeSpacesUnits (toLower query))))
           \<le> fuzzyScoreUnits toLower query candidate
       \<and> fuzzyScoreUnits toLower query candidate
           \<le> 2 * int (length (codePoints (removeSpacesUnits (toLower query))))"
proof -
  let ?cps = "codePoints (removeSpacesUnits (toLower query))"
  from assms have eq: "fuzzyScoreUnits toLower query candidate
      = scoreLoopUnits toLower ?cps candidate 0 0"
    by (auto simp: fuzzyScoreUnits_def Let_def split: if_splits)
  with assms scoreLoopUnits_range [of toLower ?cps candidate 0 0] show ?thesis by auto
qed

lemma fuzzyScoreUnits_bounds_bmp:
  assumes "fuzzyScoreUnits toLower query candidate \<noteq> NO_MATCH"
    and "noSurrogatePair (removeSpacesUnits (toLower query))"
  shows "int (length (removeSpacesUnits (toLower query)))
           \<le> fuzzyScoreUnits toLower query candidate
       \<and> fuzzyScoreUnits toLower query candidate
           \<le> 2 * int (length (removeSpacesUnits (toLower query)))"
  using fuzzyScoreUnits_code_points [OF assms(1)] codePoints_single [OF assms(2)]
  by simp

text \<open>
  A query without surrogate pairs fails on any candidate exactly when its normalised
  form is empty or is not a subsequence of the candidate's code units, as on the
  strings of the first section.
\<close>

lemma firstOccurrence_single_None: "firstOccurrence [u] ys = None \<longleftrightarrow> u \<notin> set ys"
  by (induction ys) auto

lemma subseq_Cons_firstOccurrence:
  "subseq (u # qs) ys \<longleftrightarrow>
     (\<exists>k. firstOccurrence [u] ys = Some k \<and> subseq qs (drop (Suc k) ys))"
  by (induction ys) auto

lemma indexOfUnits_single:
  "indexOfUnits cand [u] i =
     (case firstOccurrence [u] (drop i cand) of None \<Rightarrow> -1 | Some k \<Rightarrow> int (i + k))"
proof (cases "i \<le> length cand")
  case True
  then have "min i (length cand) = i" by simp
  then show ?thesis by (simp add: indexOfUnits_def)
next
  case False
  then have "drop (min i (length cand)) cand = []" "drop i cand = []" by simp_all
  then show ?thesis by (simp add: indexOfUnits_def)
qed

lemma scoreLoopUnits_fails_iff:
  assumes "\<forall>u\<in>set qs. toLower [u] = [u]"
  shows "0 \<le> sc \<Longrightarrow>
         scoreLoopUnits toLower (map (\<lambda>u. [u]) qs) cand sc i = -1
           \<longleftrightarrow> \<not> subseq qs (drop i cand)"
  using assms
proof (induction qs arbitrary: sc i)
  case Nil
  then show ?case by simp
next
  case (Cons q qs)
  from Cons.prems(2) have q: "toLower [q] = [q]" and qs: "\<forall>u\<in>set qs. toLower [u] = [u]"
    by simp_all
  show ?case
  proof (cases "firstOccurrence [q] (drop i cand)")
    case None
    then show ?thesis by (simp add: q indexOfUnits_single subseq_Cons_firstOccurrence)
  next
    case (Some k)
    have step: "scoreLoopUnits toLower (map (\<lambda>u. [u]) (q # qs)) cand sc i =
                scoreLoopUnits toLower (map (\<lambda>u. [u]) qs) cand
                  (if k = 0 then sc + 2 else sc + 1) (i + k + 1)"
      using Some by (simp add: q indexOfUnits_single Let_def nat_add_distrib)
    have d: "drop (Suc k) (drop i cand) = drop (i + k + 1) cand"
      by (simp add: add.commute)
    have "0 \<le> (if k = 0 then sc + 2 else sc + 1)" using Cons.prems(1) by simp
    from Cons.IH [OF this qs, of "i + k + 1"] show ?thesis
      unfolding step using Some d by (simp add: subseq_Cons_firstOccurrence)
  qed
qed

lemma fuzzyScoreUnits_no_match_iff:
  assumes "noSurrogatePair (removeSpacesUnits (toLower query))"
    and "list_all (\<lambda>char. toLower char = char)
           (codePoints (removeSpacesUnits (toLower query)))"
  shows "fuzzyScoreUnits toLower query candidate = NO_MATCH \<longleftrightarrow>
           removeSpacesUnits (toLower query) = []
           \<or> \<not> subseq (removeSpacesUnits (toLower query)) candidate"
proof -
  let ?n = "removeSpacesUnits (toLower query)"
  have cps: "codePoints ?n = map (\<lambda>u. [u]) ?n" by (rule codePoints_single [OF assms(1)])
  from assms(2) have single: "\<forall>u\<in>set ?n. toLower [u] = [u]"
    unfolding cps by (simp add: list_all_iff)
  from scoreLoopUnits_fails_iff [OF single, of 0 candidate 0] show ?thesis
    by (simp add: fuzzyScoreUnits_def cps Let_def)
qed

section \<open>The matcher's contract on every string\<close>

text \<open>
  Claim C4, as amended. For every string \<open>s\<close> that is not empty, is in lower case,
  holds no white space and holds no surrogate pair, \<^verbatim>\<open>fuzzyScore(s, s)\<close> succeeds
  with the score \<open>2 * len(s)\<close>: every character gets the two points of a contiguous
  match. This holds for every case mapping of the host.
\<close>

theorem fuzzyScoreUnits_self:
  assumes "s \<noteq> []" and "inLowerCase toLower s" and "\<forall>u\<in>set s. \<not> isSpaceUnit u"
    and "noSurrogatePair s"
  shows "fuzzyScoreUnits toLower s s = 2 * int (length s)"
proof -
  from assms(2) have whole: "toLower s = s"
    and each: "list_all (\<lambda>char. toLower char = char) (codePoints s)"
    by (simp_all add: inLowerCase_def)
  from assms(3) have nq: "removeSpacesUnits s = s" by (simp add: removeSpacesUnits_def)
  have cps: "codePoints s = map (\<lambda>u. [u]) s" by (rule codePoints_single [OF assms(4)])
  from each have single: "\<forall>u\<in>set s. toLower [u] = [u]"
    unfolding cps by (simp add: list_all_iff)
  have "scoreLoopUnits toLower (map (\<lambda>u. [u]) s) s 0 0 = 0 + 2 * int (length s)"
    by (rule scoreLoopUnits_prefix [OF single]) simp
  with assms(1) show ?thesis by (simp add: fuzzyScoreUnits_def whole nq cps)
qed

theorem fuzzyScoreUnits_self_witness:
  "units ''init'' \<noteq> [] \<and> inLowerCase toLowerCaseLatin1 (units ''init'')
   \<and> list_all (\<lambda>u. \<not> isSpaceUnit u) (units ''init'') \<and> noSurrogatePair (units ''init'')
   \<and> fuzzyScoreUnits toLowerCaseLatin1 (units ''init'') (units ''init'') = 8"
proof -
  have a: "units ''init'' \<noteq> []" by (simp add: units_def)
  have b: "inLowerCase toLowerCaseLatin1 (units ''init'')" by code_simp
  have c: "list_all (\<lambda>u. \<not> isSpaceUnit u) (units ''init'')" by code_simp
  then have c': "\<forall>u\<in>set (units ''init''). \<not> isSpaceUnit u" by (simp only: list_all_iff)
  have d: "noSurrogatePair (units ''init'')" by code_simp
  have l: "length (units ''init'') = 4" by (simp add: units_def)
  show ?thesis using a b c d fuzzyScoreUnits_self [OF a b c' d] l by simp
qed

text \<open>
  Claim C4 as the specification states it, for every lower-case string, fails on the
  empty string and on strings with white space, as the code is meant to work. The
  empty string is in lower case and is refused by the guard on an empty normalised
  query. The string \<open>a b\<close> is in lower case; its blank is dropped from the query and
  stays in the candidate, so that \<open>b\<close> is found one place after the cursor and gets
  one point: the score is 3 and not 6. It fails as well on the string of two copies of
  the character U+1F600, which is in lower case and has no white space: the score is
  3, with a length of 4 code units or 2 characters. That is the cursor's step of one
  code unit after a character of two, which is taken up under claim C5.
\<close>

theorem fuzzyScoreUnits_self_counterexample:
  "inLowerCase toLowerCaseLatin1 []
   \<and> fuzzyScoreUnits toLowerCaseLatin1 [] [] = NO_MATCH
   \<and> inLowerCase toLowerCaseLatin1 (units ''a b'')
   \<and> fuzzyScoreUnits toLowerCaseLatin1 (units ''a b'') (units ''a b'') = 3
   \<and> length (units ''a b'') = 3
   \<and> inLowerCase toLowerCaseLatin1 twoEmoji
   \<and> twoEmoji \<noteq> [] \<and> list_all (\<lambda>u. \<not> isSpaceUnit u) twoEmoji
   \<and> fuzzyScoreUnits toLowerCaseLatin1 twoEmoji twoEmoji = 3
   \<and> length twoEmoji = 4 \<and> length (codePoints twoEmoji) = 2"
  by code_simp

text \<open>
  Claim C5. Take the length \<open>L\<close> of the normalised query in characters, as the loop
  takes them. The score of a match lies between \<open>L\<close> and \<open>2L\<close> for every query and
  every candidate (\<open>fuzzyScoreUnits_code_points\<close>), and \<open>L\<close> is the number of code
  units when the query holds no surrogate pair (\<open>fuzzyScoreUnits_bounds_bmp\<close>,
  \<open>fuzzyScore_bounds\<close>). The last part of the claim, that a match which is
  contiguous from the start scores \<open>2L\<close>, is broken by the code on strings with
  surrogate pairs. The loop scores a match as contiguous when it starts at the cursor,
  and moves the cursor to one code unit after the start of the match; after a
  character of two code units the cursor is inside that character, where no match
  starts, so the next character is never scored as contiguous. For the query and the
  candidate both two copies of U+1F600 the first copy is found at 0, the cursor
  becomes 1, the second copy is found at 2 and gets one point, where a cursor of 2
  would have given it two: the score is 3, not twice the length of the query, which is
  2 characters or 4 code units, and below its length in code units.
\<close>

theorem fuzzyScoreUnits_surrogate_pairs:
  "toLowerCaseLatin1 twoEmoji = twoEmoji
   \<and> removeSpacesUnits (toLowerCaseLatin1 twoEmoji) = twoEmoji
   \<and> codePoints twoEmoji = [take 2 twoEmoji, take 2 twoEmoji]
   \<and> length twoEmoji = 4 \<and> length (codePoints twoEmoji) = 2
   \<and> prefix twoEmoji twoEmoji
   \<and> indexOfUnits twoEmoji (take 2 twoEmoji) 0 = 0
   \<and> indexOfUnits twoEmoji (take 2 twoEmoji) 1 = 2
   \<and> indexOfUnits twoEmoji (take 2 twoEmoji) 2 = 2
   \<and> fuzzyScoreUnits toLowerCaseLatin1 twoEmoji twoEmoji = 3"
  by code_simp

section \<open>The registry's lookup\<close>

text \<open>Case variants are the strings with the same lower-case form.\<close>

lemma of_char_toLowerChar:
  "(of_char (toLowerChar c) :: nat) = (if isCapital c then of_char c + 32 else of_char c)"
proof (cases "isCapital c")
  case True
  then have "(of_char c :: nat) + 32 < 256" by (auto simp: isCapital_def Let_def)
  with True show ?thesis by (simp add: toLowerChar_def isCapital_def Let_def)
next
  case False
  then show ?thesis by (auto simp: toLowerChar_def isCapital_def Let_def)
qed

lemma toLowerChar_eq_iff:
  "toLowerChar a = toLowerChar b \<longleftrightarrow> (of_char (toLowerChar a) :: nat) = of_char (toLowerChar b)"
  by simp

lemma sameLetter_iff: "sameLetter a b \<longleftrightarrow> toLowerChar a = toLowerChar b"
proof -
  have eq: "a = b \<longleftrightarrow> (of_char a :: nat) = of_char b" by simp
  show ?thesis
    unfolding toLowerChar_eq_iff of_char_toLowerChar sameLetter_def eq
    by (auto simp: isCapital_def Let_def)
qed

lemma caseVariant_iff: "caseVariant u v \<longleftrightarrow> toLowerCase u = toLowerCase v"
proof -
  have "toLowerCase u = toLowerCase v
        \<longleftrightarrow> list_all2 (=) (map toLowerChar u) (map toLowerChar v)"
    by (simp add: toLowerCase_def list_all2_eq)
  also have "\<dots> \<longleftrightarrow> list_all2 (\<lambda>a b. toLowerChar a = toLowerChar b) u v"
    by (simp add: list_all2_map1 list_all2_map2)
  finally show ?thesis by (simp add: caseVariant_def sameLetter_iff [abs_def])
qed

lemma matchesIgnoringCase_lower:
  "matchesIgnoringCase c input \<longleftrightarrow>
     toLowerCase (name c) = toLowerCase input \<or>
     list_ex (\<lambda>alias. toLowerCase alias = toLowerCase input) (aliasList c)"
  unfolding matchesIgnoringCase_def caseVariant_iff list_ex_iff by metis

lemma findCommand_lower:
  assumes "storedInLowerCase registry"
  shows "findCommand registry input = List.find (\<lambda>c. matchesIgnoringCase c input) registry"
proof -
  have "\<And>c. c \<in> set registry \<Longrightarrow>
          (if name c = toLowerCase input then True
           else case aliases c of None \<Rightarrow> False
                | Some as \<Rightarrow> list_ex (\<lambda>alias. alias = toLowerCase input) as)
          = matchesIgnoringCase c input"
  proof -
    fix c assume "c \<in> set registry"
    with assms have n: "toLowerCase (name c) = name c"
      and a: "\<forall>alias\<in>set (aliasList c). toLowerCase alias = alias"
      by (auto simp: storedInLowerCase_def list_all_iff)
    show "(if name c = toLowerCase input then True
           else case aliases c of None \<Rightarrow> False
                | Some as \<Rightarrow> list_ex (\<lambda>alias. alias = toLowerCase input) as)
          = matchesIgnoringCase c input"
      using n a
      by (cases "aliases c")
         (auto simp: matchesIgnoringCase_lower aliasList_def list_ex_iff toLowerCase_idem)
  qed
  then show ?thesis
    unfolding findCommand_def Let_def by (intro find_cong) auto
qed

lemma findCommand_None:
  assumes "\<forall>c\<in>set registry. \<not> matchesIgnoringCase c input"
  shows "findCommand registry input = None"
proof -
  have "\<And>c. c \<in> set registry \<Longrightarrow>
          \<not> (if name c = toLowerCase input then True
           else case aliases c of None \<Rightarrow> False
                | Some as \<Rightarrow> list_ex (\<lambda>alias. alias = toLowerCase input) as)"
  proof -
    fix c assume "c \<in> set registry"
    with assms have "\<not> matchesIgnoringCase c input" by simp
    then show "\<not> (if name c = toLowerCase input then True
           else case aliases c of None \<Rightarrow> False
                | Some as \<Rightarrow> list_ex (\<lambda>alias. alias = toLowerCase input) as)"
      by (cases "aliases c")
         (auto simp: matchesIgnoringCase_lower aliasList_def list_ex_iff toLowerCase_idem)
  qed
  then show ?thesis
    unfolding findCommand_def Let_def by (simp add: find_None_iff)
qed

text \<open>Lower-case forms used in the concrete runs.\<close>

lemma lower_INIT: "toLowerCase ''INIT'' = ''init''" by code_simp
lemma lower_init: "toLowerCase ''init'' = ''init''" by code_simp

lemma commands_storedInLowerCase: "storedInLowerCase (commands handleInit)"
  by (simp add: storedInLowerCase_def commands_def initCommand_def aliasList_def lower_init)

text \<open>
  Claim C6. For every command of the registry and every case variant of its name or of
  one of its aliases, \<^verbatim>\<open>findCommand\<close> returns the first entry of the registry, in
  the order of registration, that the input matches without regard to case, which is
  that command when no earlier entry matches; and for an input that matches no name and
  no alias it returns not-found. It is a total function and raises nothing. The
  registry is the program's; the same holds of every registry that keeps its names and
  aliases in lower case, as the program's does.
\<close>

theorem findCommand_registered:
  "findCommand (commands handleInit) input
     = List.find (\<lambda>c. matchesIgnoringCase c input) (commands handleInit)
   \<and> findCommand (commands handleInit) input
     = (if caseVariant input ''init'' then Some (initCommand handleInit) else None)
   \<and> (\<forall>c\<in>set (commands handleInit).
        matchesIgnoringCase c input \<longrightarrow> findCommand (commands handleInit) input = Some c)
   \<and> ((\<forall>c\<in>set (commands handleInit). \<not> matchesIgnoringCase c input) \<longrightarrow>
        findCommand (commands handleInit) input = None)
   \<and> (storedInLowerCase registry \<longrightarrow>
        findCommand registry input = List.find (\<lambda>c. matchesIgnoringCase c input) registry
        \<and> (\<forall>k<length registry.
              matchesIgnoringCase (registry ! k) input \<and>
              (\<forall>j<k. \<not> matchesIgnoringCase (registry ! j) input) \<longrightarrow>
              findCommand registry input = Some (registry ! k))
        \<and> ((\<exists>c\<in>set registry. matchesIgnoringCase c input) \<longrightarrow>
              (\<exists>i<length registry.
                 findCommand registry input = Some (registry ! i) \<and>
                 matchesIgnoringCase (registry ! i) input \<and>
                 (\<forall>j<i. \<not> matchesIgnoringCase (registry ! j) input))))
   \<and> ((\<forall>c\<in>set registry. \<not> matchesIgnoringCase c input) \<longrightarrow>
        findCommand registry input = None)"
proof -
  have general: "findCommand r input = List.find (\<lambda>c. matchesIgnoringCase c input) r"
    if "storedInLowerCase r" for r
    using that by (rule findCommand_lower)
  have program: "findCommand (commands handleInit) input
     = List.find (\<lambda>c. matchesIgnoringCase c input) (commands handleInit)"
    by (rule general [OF commands_storedInLowerCase])
  have init: "findCommand (commands handleInit) input
     = (if caseVariant input ''init'' then Some (initCommand handleInit) else None)"
    unfolding program
    by (simp add: commands_def matchesIgnoringCase_def aliasList_def initCommand_def)
  have one: "findCommand (commands handleInit) input = Some c"
    if "c \<in> set (commands handleInit)" "matchesIgnoringCase c input" for c
    unfolding program using that by (simp add: commands_def)
  have none: "findCommand r input = None"
    if "\<forall>c\<in>set r. \<not> matchesIgnoringCase c input" for r
    using that by (rule findCommand_None)
  have first: "findCommand registry input = Some (registry ! k)"
    if "storedInLowerCase registry" "k < length registry"
      "matchesIgnoringCase (registry ! k) input \<and>
       (\<forall>j<k. \<not> matchesIgnoringCase (registry ! j) input)" for k
    unfolding general [OF that(1)] find_Some_iff using that(2,3) by blast
  have some: "\<exists>i<length registry.
               findCommand registry input = Some (registry ! i) \<and>
               matchesIgnoringCase (registry ! i) input \<and>
               (\<forall>j<i. \<not> matchesIgnoringCase (registry ! j) input)"
    if "storedInLowerCase registry" "\<exists>c\<in>set registry. matchesIgnoringCase c input"
  proof -
    from that(2) obtain x where "List.find (\<lambda>c. matchesIgnoringCase c input) registry = Some x"
      by (cases "List.find (\<lambda>c. matchesIgnoringCase c input) registry")
         (auto simp: find_None_iff)
    then show ?thesis unfolding general [OF that(1)] by (auto simp: find_Some_iff)
  qed
  from program init one none general first some show ?thesis by blast
qed

theorem findCommand_registered_witness:
  "matchesIgnoringCase (initCommand ([], None)) ''INIT''
   \<and> findCommand (commands ([], None)) ''INIT'' = Some (initCommand ([], None))
   \<and> \<not> matchesIgnoringCase (initCommand ([], None)) ''build''
   \<and> findCommand (commands ([], None)) ''build'' = None
   \<and> storedInLowerCase [scenarioInit, scenarioMake]
   \<and> \<not> matchesIgnoringCase scenarioInit ''BUILD''
   \<and> matchesIgnoringCase scenarioMake ''BUILD''
   \<and> findCommand [scenarioInit, scenarioMake] ''BUILD'' = Some scenarioMake"
proof -
  have a: "matchesIgnoringCase (initCommand ([], None)) ''INIT''" by code_simp
  have b: "\<not> matchesIgnoringCase (initCommand ([], None)) ''build''" by code_simp
  have c: "storedInLowerCase [scenarioInit, scenarioMake]" by code_simp
  have d: "\<not> matchesIgnoringCase scenarioInit ''BUILD''" by code_simp
  have e: "matchesIgnoringCase scenarioMake ''BUILD''" by code_simp
  note P = findCommand_registered [of "([], None)" "''INIT''" "[scenarioInit, scenarioMake]"]
  note Q = findCommand_registered [of "([], None)" "''build''" "[scenarioInit, scenarioMake]"]
  note R = findCommand_registered [of "([], None)" "''BUILD''" "[scenarioInit, scenarioMake]"]
  from P a have p: "findCommand (commands ([], None)) ''INIT'' = Some (initCommand ([], None))"
    by (simp add: commands_def)
  from Q b have q: "findCommand (commands ([], None)) ''build'' = None"
    by (simp add: commands_def)
  from R c have "\<forall>k<length [scenarioInit, scenarioMake].
              matchesIgnoringCase ([scenarioInit, scenarioMake] ! k) ''BUILD'' \<and>
              (\<forall>j<k. \<not> matchesIgnoringCase ([scenarioInit, scenarioMake] ! j) ''BUILD'') \<longrightarrow>
              findCommand [scenarioInit, scenarioMake] ''BUILD''
                = Some ([scenarioInit, scenarioMake] ! k)"
    by blast
  from this [rule_format, of 1] d e
  have r: "findCommand [scenarioInit, scenarioMake] ''BUILD'' = Some scenarioMake"
    by simp
  from a b c d e p q r show ?thesis by simp
qed

section \<open>Facts about the ranking\<close>

lemma fuzzyScore_ge: "fuzzyScore q c = -1 \<or> 1 \<le> fuzzyScore q c"
proof (cases "removeSpaces (toLowerCase q) = []")
  case True
  then show ?thesis by (simp add: fuzzyScore_def)
next
  case False
  then have "1 \<le> int (length (removeSpaces (toLowerCase q)))"
    by (cases "removeSpaces (toLowerCase q)") auto
  with scoreLoop_range [of "removeSpaces (toLowerCase q)" c 0 0] False
  show ?thesis by (auto simp: fuzzyScore_def)
qed

lemma sum_scores_nonneg:
  "\<forall>t\<in>set ts. fuzzyScore t st \<noteq> -1 \<Longrightarrow> 0 \<le> (\<Sum>t\<leftarrow>ts. fuzzyScore t st)"
proof (induction ts)
  case Nil
  show ?case by simp
next
  case (Cons t ts)
  then show ?case using fuzzyScore_ge [of t st] by auto
qed

lemma tokenLoop_eq:
  "0 \<le> acc \<Longrightarrow>
   tokenLoop ts st acc =
     (if \<forall>t\<in>set ts. fuzzyScore t st \<noteq> -1 then acc + (\<Sum>t\<leftarrow>ts. fuzzyScore t st) else -1)"
proof (induction ts arbitrary: acc)
  case Nil
  show ?case by simp
next
  case (Cons t ts)
  show ?case
  proof (cases "fuzzyScore t st = -1")
    case True
    then show ?thesis by simp
  next
    case False
    with fuzzyScore_ge [of t st] have ge: "1 \<le> fuzzyScore t st" by simp
    then have "0 \<le> acc + fuzzyScore t st" using Cons.prems by simp
    from Cons.IH [OF this] ge False show ?thesis by (simp add: Let_def add.assoc)
  qed
qed

lemma tokenLoop_nonneg_iff:
  "0 \<le> tokenLoop ts st 0 \<longleftrightarrow> (\<forall>t\<in>set ts. fuzzyScore t st \<noteq> -1)"
  using sum_scores_nonneg [of ts st] by (simp add: tokenLoop_eq)

lemma mset_insertBy: "mset (insertBy cmp x ys) = add_mset x (mset ys)"
  by (induction ys) auto

lemma mset_sortBy: "mset (sortBy cmp xs) = mset xs"
  unfolding sortBy_def by (induction xs) (auto simp: mset_insertBy)

lemma set_insertBy: "set (insertBy cmp x ys) = insert x (set ys)"
  by (induction ys) auto

lemma tokens_of_splitSpaces:
  "filter (\<lambda>token. token \<noteq> []) (splitSpaces cur s) = [] \<longleftrightarrow>
     cur = [] \<and> (\<forall>c\<in>set s. isSpace c)"
  by (induction cur s rule: splitSpaces.induct) auto

lemma queryTokens_empty_iff: "queryTokens query = [] \<longleftrightarrow> (\<forall>c\<in>set query. isSpace c)"
  by (simp add: queryTokens_def tokens_of_splitSpaces toLowerCase_def isSpace_toLowerChar)

lemma rankCommands_mset:
  assumes "queryTokens query \<noteq> []"
  shows "mset (rankCommands lc query definitions) =
         mset (map (\<lambda>c. \<lparr> command = c,
                          score = (\<Sum>t\<leftarrow>queryTokens query. fuzzyScore t (buildSearchText c)) \<rparr>)
                (filter (\<lambda>c. \<forall>t\<in>set (queryTokens query). fuzzyScore t (buildSearchText c) \<noteq> -1)
                   definitions))"
proof -
  let ?ts = "queryTokens query"
  have "filter (\<lambda>entry. score entry \<ge> 0) (map (scoreCommand ?ts) definitions) =
        map (\<lambda>c. \<lparr> command = c, score = (\<Sum>t\<leftarrow>?ts. fuzzyScore t (buildSearchText c)) \<rparr>)
          (filter (\<lambda>c. \<forall>t\<in>set ?ts. fuzzyScore t (buildSearchText c) \<noteq> -1) definitions)"
  proof (induction definitions)
    case Nil
    show ?case by simp
  next
    case (Cons d ds)
    then show ?case
      using tokenLoop_nonneg_iff [of ?ts "buildSearchText d"]
      by (auto simp: scoreCommand_def tokenLoop_eq)
  qed
  with assms show ?thesis by (simp add: rankCommands_def Let_def mset_sortBy)
qed

section \<open>Facts about the sort\<close>

lemma sorted_insertBy:
  assumes total: "\<And>a b. cmp a b \<le> 0 \<or> cmp b a \<le> 0"
    and trans: "\<And>a b c. cmp a b \<le> 0 \<Longrightarrow> cmp b c \<le> 0 \<Longrightarrow> cmp a c \<le> 0"
  shows "sorted_wrt (\<lambda>a b. cmp a b \<le> 0) ys \<Longrightarrow> sorted_wrt (\<lambda>a b. cmp a b \<le> 0) (insertBy cmp x ys)"
proof (induction ys)
  case Nil
  show ?case by simp
next
  case (Cons y ys)
  show ?case
  proof (cases "cmp x y \<le> 0")
    case True
    with Cons.prems show ?thesis by (auto intro: trans)
  next
    case False
    with total [of x y] have "cmp y x \<le> 0" by simp
    with False Cons show ?thesis by (auto simp: set_insertBy)
  qed
qed

lemma sorted_sortBy:
  assumes total: "\<And>a b. cmp a b \<le> 0 \<or> cmp b a \<le> 0"
    and trans: "\<And>a b c. cmp a b \<le> 0 \<Longrightarrow> cmp b c \<le> 0 \<Longrightarrow> cmp a c \<le> 0"
  shows "sorted_wrt (\<lambda>a b. cmp a b \<le> 0) (sortBy cmp xs)"
  unfolding sortBy_def
  by (induction xs) (auto intro: sorted_insertBy [OF total trans])

lemma compareEntries_total:
  assumes "consistentComparator lc"
  shows "compareEntries lc a b \<le> 0 \<or> compareEntries lc b a \<le> 0"
proof (cases "score a = score b")
  case True
  from assms have "lc (name (command a)) (name (command b)) \<le> 0
                 \<or> lc (name (command b)) (name (command a)) \<le> 0"
    unfolding consistentComparator_def
    by (metis less_le_not_le linorder_le_cases)
  with True show ?thesis by (simp add: compareEntries_def)
next
  case False
  then show ?thesis by (auto simp: compareEntries_def)
qed

lemma compareEntries_trans:
  assumes "consistentComparator lc"
    and "compareEntries lc a b \<le> 0" and "compareEntries lc b c \<le> 0"
  shows "compareEntries lc a c \<le> 0"
proof -
  from assms(1) have tr: "\<And>x y z. lc x y \<le> 0 \<Longrightarrow> lc y z \<le> 0 \<Longrightarrow> lc x z \<le> 0"
    unfolding consistentComparator_def by blast
  from assms(2) have ab: "score b \<le> score a"
    by (auto simp: compareEntries_def split: if_splits)
  from assms(3) have bc: "score c \<le> score b"
    by (auto simp: compareEntries_def split: if_splits)
  show ?thesis
  proof (cases "score a = score c")
    case True
    with ab bc have "score a = score b" "score b = score c" by auto
    with assms(2,3) tr show ?thesis by (auto simp: compareEntries_def)
  next
    case False
    with ab bc show ?thesis by (auto simp: compareEntries_def)
  qed
qed

lemma sorted_wrt_distinct_rel:
  "distinct xs \<Longrightarrow> sorted_wrt P xs \<Longrightarrow>
   (\<And>x y. x \<in> set xs \<Longrightarrow> y \<in> set xs \<Longrightarrow> x \<noteq> y \<Longrightarrow> P x y \<Longrightarrow> Q x y) \<Longrightarrow>
   sorted_wrt Q xs"
  by (induction xs) auto

lemma sorted_wrt_unique:
  assumes asym: "\<And>x y. R x y \<Longrightarrow> \<not> R y x"
  shows "sorted_wrt R xs \<Longrightarrow> sorted_wrt R ys \<Longrightarrow> mset xs = mset ys \<Longrightarrow> xs = ys"
proof (induction xs arbitrary: ys)
  case Nil
  then show ?case by simp
next
  case (Cons x xs)
  from Cons.prems(3) obtain y ys' where ys: "ys = y # ys'"
    by (cases ys) auto
  have "x = y"
  proof (rule ccontr)
    assume ne: "x \<noteq> y"
    from Cons.prems(3) ys have "x \<in> set ys" "y \<in> set (x # xs)"
      by (metis list.set_intros(1) mset_eq_setD)+
    with ne ys have "x \<in> set ys'" "y \<in> set xs" by auto
    with Cons.prems(1,2) ys have "R y x" "R x y" by auto
    with asym show False by blast
  qed
  with Cons.prems ys have "sorted_wrt R xs" "sorted_wrt R ys'" "mset xs = mset ys'" by auto
  with Cons.IH have "xs = ys'" by blast
  with \<open>x = y\<close> ys show ?case by simp
qed

lemma rankCommands_distinct:
  assumes "distinct definitions"
  shows "distinct (rankCommands lc query definitions)"
proof (cases "queryTokens query = []")
  case True
  then show ?thesis by (simp add: rankCommands_def)
next
  case False
  have inj: "inj_on (scoreCommand (queryTokens query)) (set definitions)"
    by (rule inj_onI) (auto simp: scoreCommand_def)
  have "distinct (filter (\<lambda>entry. score entry \<ge> 0) (map (scoreCommand (queryTokens query)) definitions))"
    using assms inj by (simp add: distinct_map)
  then have "distinct (sortBy (compareEntries lc)
     (filter (\<lambda>entry. score entry \<ge> 0) (map (scoreCommand (queryTokens query)) definitions)))"
    using mset_sortBy mset_eq_imp_distinct_iff by blast
  with False show ?thesis by (simp add: rankCommands_def Let_def)
qed

lemma set_sortBy: "set (sortBy cmp xs) = set xs"
  by (rule mset_eq_setD) (rule mset_sortBy)

lemma rankCommands_commands:
  "e \<in> set (rankCommands lc query definitions) \<Longrightarrow>
   command e \<in> set definitions \<and> e = scoreCommand (queryTokens query) (command e)"
proof -
  assume e: "e \<in> set (rankCommands lc query definitions)"
  then have "queryTokens query \<noteq> []" by (auto simp: rankCommands_def)
  with e have "e \<in> set (filter (\<lambda>entry. score entry \<ge> 0)
                      (map (scoreCommand (queryTokens query)) definitions))"
    by (simp add: rankCommands_def Let_def set_sortBy)
  then show ?thesis by (auto simp: scoreCommand_def)
qed

lemma rankCommands_sorted:
  assumes "consistentComparator lc"
  shows "sorted_wrt (\<lambda>a b. compareEntries lc a b \<le> 0) (rankCommands lc query definitions)"
proof (cases "queryTokens query = []")
  case True
  then show ?thesis by (simp add: rankCommands_def)
next
  case False
  then show ?thesis
    using sorted_sortBy [of "compareEntries lc", OF compareEntries_total [OF assms]
        compareEntries_trans [OF assms]]
    by (simp add: rankCommands_def Let_def)
qed

lemma rankCommands_mset_cong:
  "mset ds' = mset ds \<Longrightarrow> mset (rankCommands lc query ds') = mset (rankCommands lc query ds)"
proof (cases "queryTokens query = []")
  case True
  then show ?thesis by (simp add: rankCommands_def)
next
  case False
  assume "mset ds' = mset ds"
  then have "mset (filter (\<lambda>entry. score entry \<ge> 0) (map (scoreCommand (queryTokens query)) ds'))
           = mset (filter (\<lambda>entry. score entry \<ge> 0) (map (scoreCommand (queryTokens query)) ds))"
    by simp
  with False show ?thesis by (simp add: rankCommands_def Let_def mset_sortBy del: mset_filter mset_map)
qed

section \<open>The resolver's contract\<close>

text \<open>The tokens of the program are the tokens of the specification.\<close>

lemma whitespaceTokens_Nil: "whitespaceTokens [] = []"
  by (subst whitespaceTokens.simps) simp

lemma whitespaceTokens_space: "isSpace c \<Longrightarrow> whitespaceTokens (c # s) = whitespaceTokens s"
  by (subst whitespaceTokens.simps, subst (2) whitespaceTokens.simps) simp

lemma whitespaceTokens_word:
  assumes "\<forall>x\<in>set w. \<not> isSpace x" and "w \<noteq> []" and "s = [] \<or> isSpace (hd s)"
  shows "whitespaceTokens (w @ s) = w # whitespaceTokens s"
proof -
  from assms(2) obtain c w' where w: "w = c # w'" by (cases w) auto
  with assms(1) have c: "\<not> isSpace c" by simp
  from assms(3) have t: "takeWhile (\<lambda>x. \<not> isSpace x) s = []"
    and d: "dropWhile (\<lambda>x. \<not> isSpace x) s = s"
    by (cases s; auto)+
  from assms(1) have tw: "takeWhile (\<lambda>x. \<not> isSpace x) (w @ s) = w"
    by (simp add: takeWhile_append2 t)
  from assms(1) have dw: "dropWhile (\<lambda>x. \<not> isSpace x) (w @ s) = s"
    by (simp add: dropWhile_append2 d)
  have "dropWhile isSpace (w @ s) = w @ s" using c w by simp
  then have "whitespaceTokens (w @ s)
        = takeWhile (\<lambda>x. \<not> isSpace x) (w @ s)
            # whitespaceTokens (dropWhile (\<lambda>x. \<not> isSpace x) (w @ s))"
    using w by (subst whitespaceTokens.simps) simp
  then show ?thesis by (simp only: tw dw)
qed

lemma whitespaceTokens_after:
  assumes "\<forall>x\<in>set cur. \<not> isSpace x" and "s = [] \<or> isSpace (hd s)"
  shows "whitespaceTokens (rev cur @ s)
         = (if cur = [] then whitespaceTokens s else rev cur # whitespaceTokens s)"
proof (cases "cur = []")
  case True
  then show ?thesis by simp
next
  case False
  with whitespaceTokens_word [of "rev cur" s] assms show ?thesis by simp
qed

lemma splitSpaces_tokens:
  "\<forall>x\<in>set cur. \<not> isSpace x \<Longrightarrow>
   filter (\<lambda>token. token \<noteq> []) (splitSpaces cur s) = whitespaceTokens (rev cur @ s)"
proof (induction cur s rule: splitSpaces.induct)
  case (1 cur)
  then show ?case
    using whitespaceTokens_after [of cur "[]"] by (simp add: whitespaceTokens_Nil)
next
  case (2 cur c)
  show ?case
  proof (cases "isSpace c")
    case True
    with 2 whitespaceTokens_after [of cur "[c]"] show ?thesis
      by (simp add: whitespaceTokens_space whitespaceTokens_Nil)
  next
    case False
    with 2 whitespaceTokens_after [of "c # cur" "[]"] show ?thesis
      by (simp add: whitespaceTokens_Nil)
  qed
next
  case (3 cur c d cs)
  show ?case
  proof (cases "isSpace c")
    case c: True
    have here: "whitespaceTokens (rev cur @ c # d # cs)
          = (if cur = [] then whitespaceTokens (d # cs) else rev cur # whitespaceTokens (d # cs))"
      using whitespaceTokens_after [of cur "c # d # cs"] "3.prems" c
      by (simp add: whitespaceTokens_space)
    show ?thesis
    proof (cases "isSpace d")
      case True
      have "whitespaceTokens (rev cur @ d # cs)
          = (if cur = [] then whitespaceTokens (d # cs) else rev cur # whitespaceTokens (d # cs))"
        using whitespaceTokens_after [of cur "d # cs"] "3.prems" True by simp
      with "3.IH"(1) [OF c True "3.prems"] c True here show ?thesis by simp
    next
      case False
      from "3.IH"(2) [OF c False] have "filter (\<lambda>token. token \<noteq> []) (splitSpaces [] (d # cs))
          = whitespaceTokens (d # cs)" by simp
      with c False here show ?thesis by simp
    qed
  next
    case False
    with "3.IH"(3) [OF False] "3.prems" show ?thesis by simp
  qed
qed

lemma queryTokens_spec: "queryTokens query = whitespaceTokens (toLowerCase query)"
  using splitSpaces_tokens [of "[]" "toLowerCase query"] by (simp add: queryTokens_def)

lemma buildSearchText_spec:
  "buildSearchText c
     = toLowerCase (name c @ '' '' @ join '' '' (aliasList c) @ '' '' @ description c)"
  by (cases "aliases c") (simp_all add: buildSearchText_def aliasList_def)


lemma whitespaceTokens_shape:
  "list_all (\<lambda>t. t \<noteq> [] \<and> list_all (\<lambda>x. \<not> isSpace x) t) (whitespaceTokens s)
   \<and> concat (whitespaceTokens s) = removeSpaces s"
proof (induction s rule: length_induct)
  case (1 s)
  show ?case
  proof (cases "dropWhile isSpace s")
    case Nil
    then have "\<forall>x\<in>set s. isSpace x" by (simp add: dropWhile_eq_Nil_conv)
    then have "removeSpaces s = []" by (auto simp: removeSpaces_def filter_empty_conv)
    moreover have "whitespaceTokens s = []"
      by (subst whitespaceTokens.simps) (simp only: Nil list.case)
    ultimately show ?thesis by simp
  next
    case (Cons c cs)
    let ?w = "takeWhile (\<lambda>x. \<not> isSpace x) (c # cs)"
    let ?r = "dropWhile (\<lambda>x. \<not> isSpace x) (c # cs)"
    have "dropWhile isSpace s \<noteq> []" using Cons by simp
    then have "\<not> isSpace (hd (dropWhile isSpace s))" by (rule hd_dropWhile)
    with Cons have c: "\<not> isSpace c" by simp
    have unfold: "whitespaceTokens s = ?w # whitespaceTokens ?r"
      by (subst whitespaceTokens.simps) (simp only: Cons list.case)
    have "length ?r \<le> length cs" using c by (simp add: length_dropWhile_le)
    moreover have "length (c # cs) \<le> length s"
      using length_dropWhile_le [of isSpace s] Cons by simp
    ultimately have "length ?r < length s" by simp
    with 1 have ih: "list_all (\<lambda>t. t \<noteq> [] \<and> list_all (\<lambda>x. \<not> isSpace x) t) (whitespaceTokens ?r)"
      "concat (whitespaceTokens ?r) = removeSpaces ?r" by auto
    have w: "?w \<noteq> []" "list_all (\<lambda>x. \<not> isSpace x) ?w"
      using c by (auto simp: list_all_iff dest: set_takeWhileD)
    have "removeSpaces s = removeSpaces (takeWhile isSpace s @ dropWhile isSpace s)" by simp
    also have "\<dots> = removeSpaces (c # cs)"
      unfolding removeSpaces_def filter_append Cons
      by (auto simp: filter_empty_conv dest: set_takeWhileD)
    also have "\<dots> = removeSpaces (?w @ ?r)" by (simp only: takeWhile_dropWhile_id)
    also have "\<dots> = ?w @ removeSpaces ?r"
      unfolding removeSpaces_def filter_append
      by (simp add: filter_id_conv del: takeWhile.simps dropWhile.simps) (auto dest: set_takeWhileD)
    finally have "removeSpaces s = ?w @ removeSpaces ?r" .
    with ih w show ?thesis unfolding unfold by (simp del: takeWhile.simps dropWhile.simps)
  qed
qed

text \<open>The ranking in the terms of the source.\<close>

lemma rankCommands_set:
  assumes "queryTokens query \<noteq> []"
  shows "set (rankCommands lc query definitions) =
          set (map (\<lambda>c. \<lparr> command = c,
                          score = (\<Sum>t\<leftarrow>queryTokens query. fuzzyScore t (buildSearchText c)) \<rparr>)
                (filter (\<lambda>c. \<forall>t\<in>set (queryTokens query). fuzzyScore t (buildSearchText c) \<noteq> -1)
                   definitions))"
  by (rule mset_eq_setD) (rule rankCommands_mset [OF assms])

lemma rankCommands_member:
  "c \<in> command ` set (rankCommands lc query definitions) \<longleftrightarrow>
     queryTokens query \<noteq> [] \<and> c \<in> set definitions \<and>
     (\<forall>t\<in>set (queryTokens query). fuzzyScore t (buildSearchText c) \<noteq> NO_MATCH)"
proof (cases "queryTokens query = []")
  case True
  then show ?thesis by (simp add: rankCommands_def)
next
  case False
  from rankCommands_set [OF False, of lc definitions] False show ?thesis
    by (auto simp: image_iff)
qed

lemma rankCommands_score:
  assumes "e \<in> set (rankCommands lc query definitions)"
  shows "score e = (\<Sum>t\<leftarrow>queryTokens query. fuzzyScore t (buildSearchText (command e)))"
proof -
  from assms have ne: "queryTokens query \<noteq> []" by (auto simp: rankCommands_def)
  from rankCommands_set [OF ne, of lc definitions] assms show ?thesis by auto
qed

lemma rankCommands_length:
  assumes "queryTokens query \<noteq> []"
  shows "length (rankCommands lc query definitions) =
         length (filter (\<lambda>d. \<forall>t\<in>set (queryTokens query).
                               fuzzyScore t (buildSearchText d) \<noteq> NO_MATCH) definitions)"
proof -
  from rankCommands_mset [OF assms, of lc definitions]
  have "size (mset (rankCommands lc query definitions)) =
        size (mset (map (\<lambda>c. \<lparr> command = c,
                        score = (\<Sum>t\<leftarrow>queryTokens query. fuzzyScore t (buildSearchText c)) \<rparr>)
              (filter (\<lambda>c. \<forall>t\<in>set (queryTokens query). fuzzyScore t (buildSearchText c) \<noteq> -1)
                 definitions)))"
    by (rule arg_cong)
  then show ?thesis by (simp only: size_mset length_map)
qed

text \<open>
  Claim C1. The tokens of a query are the maximal runs of characters that are not white
  space in its lower-case form, and the search text of a definition is the lower-case
  form of its name, its aliases and its description, joined by single spaces. A query
  has no token exactly when it has no character that is not white space, and then its
  ranking is empty. For any other query, the ranking holds a definition exactly when
  every token of the query matches the definition's search text, one entry for each
  such definition, and an entry's score is the sum of the scores of the tokens. This
  holds for every comparison function that the sort is given.
\<close>

theorem rankCommands_contents:
  "queryTokens query = whitespaceTokens (toLowerCase query)
   \<and> buildSearchText c
       = toLowerCase (name c @ '' '' @ join '' '' (aliasList c) @ '' '' @ description c)
   \<and> (whitespaceTokens (toLowerCase query) = [] \<longleftrightarrow> (\<forall>x\<in>set query. isSpace x))
   \<and> (whitespaceTokens (toLowerCase query) = [] \<longrightarrow>
        rankCommands localeCompare query definitions = [])
   \<and> (c \<in> command ` set (rankCommands localeCompare query definitions) \<longleftrightarrow>
        whitespaceTokens (toLowerCase query) \<noteq> [] \<and> c \<in> set definitions \<and>
        (\<forall>t\<in>set (whitespaceTokens (toLowerCase query)).
           fuzzyScore t
             (toLowerCase (name c @ '' '' @ join '' '' (aliasList c) @ '' '' @ description c))
           \<noteq> NO_MATCH))
   \<and> (\<forall>e\<in>set (rankCommands localeCompare query definitions).
        score e = (\<Sum>t\<leftarrow>whitespaceTokens (toLowerCase query).
                     fuzzyScore t
                       (toLowerCase (name (command e) @ '' '' @ join '' '' (aliasList (command e))
                                       @ '' '' @ description (command e)))))
   \<and> (whitespaceTokens (toLowerCase query) \<noteq> [] \<longrightarrow>
        length (rankCommands localeCompare query definitions) =
        length (filter (\<lambda>d. \<forall>t\<in>set (whitespaceTokens (toLowerCase query)).
                              fuzzyScore t
                                (toLowerCase (name d @ '' '' @ join '' '' (aliasList d)
                                                @ '' '' @ description d))
                              \<noteq> NO_MATCH) definitions))"
proof (intro conjI)
  show "queryTokens query = whitespaceTokens (toLowerCase query)"
    by (rule queryTokens_spec)
  show "buildSearchText c
       = toLowerCase (name c @ '' '' @ join '' '' (aliasList c) @ '' '' @ description c)"
    by (rule buildSearchText_spec)
  show "whitespaceTokens (toLowerCase query) = [] \<longleftrightarrow> (\<forall>x\<in>set query. isSpace x)"
    by (rule queryTokens_empty_iff [unfolded queryTokens_spec])
  show "whitespaceTokens (toLowerCase query) = [] \<longrightarrow>
        rankCommands localeCompare query definitions = []"
    by (simp add: rankCommands_def queryTokens_spec)
  show "c \<in> command ` set (rankCommands localeCompare query definitions) \<longleftrightarrow>
        whitespaceTokens (toLowerCase query) \<noteq> [] \<and> c \<in> set definitions \<and>
        (\<forall>t\<in>set (whitespaceTokens (toLowerCase query)).
           fuzzyScore t
             (toLowerCase (name c @ '' '' @ join '' '' (aliasList c) @ '' '' @ description c))
           \<noteq> NO_MATCH)"
    by (rule rankCommands_member [unfolded queryTokens_spec buildSearchText_spec])
  show "\<forall>e\<in>set (rankCommands localeCompare query definitions).
        score e = (\<Sum>t\<leftarrow>whitespaceTokens (toLowerCase query).
                     fuzzyScore t
                       (toLowerCase (name (command e) @ '' '' @ join '' '' (aliasList (command e))
                                       @ '' '' @ description (command e))))"
    by (rule ballI) (rule rankCommands_score [unfolded queryTokens_spec buildSearchText_spec])
  show "whitespaceTokens (toLowerCase query) \<noteq> [] \<longrightarrow>
        length (rankCommands localeCompare query definitions) =
        length (filter (\<lambda>d. \<forall>t\<in>set (whitespaceTokens (toLowerCase query)).
                              fuzzyScore t
                                (toLowerCase (name d @ '' '' @ join '' '' (aliasList d)
                                                @ '' '' @ description d))
                              \<noteq> NO_MATCH) definitions)"
    by (rule impI) (rule rankCommands_length [unfolded queryTokens_spec buildSearchText_spec])
qed

theorem rankCommands_contents_witness:
  "queryTokens ''bui  MK c'' = [''bui'', ''mk'', ''c'']
   \<and> buildSearchText scenarioMake = ''make build b compile''
   \<and> map (\<lambda>t. fuzzyScore t ''make build b compile'') [''bui'', ''mk'', ''c''] = [5, 3, 1]
   \<and> fuzzyScore ''bui'' (buildSearchText scenarioInit) = NO_MATCH
   \<and> scenarioMake \<in> command ` set (rankCommands sampleCollation ''bui  MK c'' [scenarioInit, scenarioMake])
   \<and> scenarioInit \<notin> command ` set (rankCommands sampleCollation ''bui  MK c'' [scenarioInit, scenarioMake])
   \<and> map score (rankCommands sampleCollation ''bui  MK c'' [scenarioInit, scenarioMake]) = [9]
   \<and> length (rankCommands sampleCollation ''bui  MK c'' [scenarioInit, scenarioMake]) = 1
   \<and> rankCommands sampleCollation '' '' [scenarioInit, scenarioMake] = []"
proof -
  let ?q = "''bui  MK c''"
  let ?ds = "[scenarioInit, scenarioMake]"
  note make = rankCommands_contents
    [where query = ?q and c = scenarioMake and localeCompare = sampleCollation and definitions = ?ds]
  note init = rankCommands_contents
    [where query = ?q and c = scenarioInit and localeCompare = sampleCollation and definitions = ?ds]
  note blank = rankCommands_contents
    [where query = "'' ''" and c = scenarioInit and localeCompare = sampleCollation
       and definitions = ?ds]
  have t: "whitespaceTokens (toLowerCase ?q) = [''bui'', ''mk'', ''c'']" by code_simp
  have sm: "toLowerCase (name scenarioMake @ '' '' @ join '' '' (aliasList scenarioMake)
                           @ '' '' @ description scenarioMake) = ''make build b compile''"
    by code_simp
  have scores: "map (\<lambda>t. fuzzyScore t ''make build b compile'') [''bui'', ''mk'', ''c''] = [5, 3, 1]"
    by code_simp
  have all: "list_all (\<lambda>t. fuzzyScore t ''make build b compile'' \<noteq> NO_MATCH)
               [''bui'', ''mk'', ''c'']"
    by code_simp
  have no: "fuzzyScore ''bui'' (toLowerCase (name scenarioInit @ '' ''
              @ join '' '' (aliasList scenarioInit) @ '' '' @ description scenarioInit)) = NO_MATCH"
    by code_simp
  have sp: "list_all isSpace '' ''" by code_simp
  have d: "map score (rankCommands sampleCollation ?q ?ds) = [9]" by code_simp
  from make have a1: "queryTokens ?q = whitespaceTokens (toLowerCase ?q)" by (elim conjE)
  from make have a2: "buildSearchText scenarioMake
       = toLowerCase (name scenarioMake @ '' '' @ join '' '' (aliasList scenarioMake)
                        @ '' '' @ description scenarioMake)" by (elim conjE)
  from init have a3: "buildSearchText scenarioInit
       = toLowerCase (name scenarioInit @ '' '' @ join '' '' (aliasList scenarioInit)
                        @ '' '' @ description scenarioInit)" by (elim conjE)
  from make have "scenarioMake \<in> command ` set (rankCommands sampleCollation ?q ?ds) \<longleftrightarrow>
        whitespaceTokens (toLowerCase ?q) \<noteq> [] \<and> scenarioMake \<in> set ?ds \<and>
        (\<forall>t\<in>set (whitespaceTokens (toLowerCase ?q)).
           fuzzyScore t (toLowerCase (name scenarioMake @ '' '' @ join '' '' (aliasList scenarioMake)
                                        @ '' '' @ description scenarioMake)) \<noteq> NO_MATCH)"
    by (elim conjE)
  then have a4: "scenarioMake \<in> command ` set (rankCommands sampleCollation ?q ?ds)"
    unfolding t sm using all by (simp only: list_all_iff) simp
  from init have "scenarioInit \<in> command ` set (rankCommands sampleCollation ?q ?ds) \<longleftrightarrow>
        whitespaceTokens (toLowerCase ?q) \<noteq> [] \<and> scenarioInit \<in> set ?ds \<and>
        (\<forall>t\<in>set (whitespaceTokens (toLowerCase ?q)).
           fuzzyScore t (toLowerCase (name scenarioInit @ '' '' @ join '' '' (aliasList scenarioInit)
                                        @ '' '' @ description scenarioInit)) \<noteq> NO_MATCH)"
    by (elim conjE)
  then have a5: "scenarioInit \<notin> command ` set (rankCommands sampleCollation ?q ?ds)"
    unfolding t using no by simp
  from blank have "whitespaceTokens (toLowerCase '' '') = [] \<longleftrightarrow> (\<forall>x\<in>set '' ''. isSpace x)"
    by (elim conjE)
  with sp have e: "whitespaceTokens (toLowerCase '' '') = []" by (simp only: list_all_iff)
  from blank have "whitespaceTokens (toLowerCase '' '') = [] \<longrightarrow>
        rankCommands sampleCollation '' '' ?ds = []" by (elim conjE)
  with e have a6: "rankCommands sampleCollation '' '' ?ds = []" by (rule mp [rotated])
  from d have a7: "length (rankCommands sampleCollation ?q ?ds) = 1"
    by (metis length_map length_Cons list.size(3) One_nat_def)
  show ?thesis
    unfolding a1 a2 a3 t sm no
    using scores a4 a5 d a7 a6 by (intro conjI) simp_all
qed

text \<open>The collation for letters meets what is asked of \<^verbatim>\<open>localeCompare\<close>.\<close>

lemma lettersCollation_consistent: "consistentComparator lettersCollation"
  unfolding consistentComparator_def lettersCollation_def
  by (auto simp: not_less intro: order_trans)

text \<open>The comparison function of the sort, read as an order on the entries.\<close>

lemma compareEntries_le_iff: "compareEntries lc a b \<le> 0 \<longleftrightarrow> rankedAsStored lc a b"
  by (auto simp: compareEntries_def rankedAsStored_def)

lemma rankedStrictlyAsStored_asym:
  assumes "consistentComparator lc"
  shows "rankedStrictlyAsStored lc a b \<Longrightarrow> \<not> rankedStrictlyAsStored lc b a"
  using assms unfolding rankedStrictlyAsStored_def consistentComparator_def
  by (metis less_asym)

lemma rankCommands_rankedAsStored:
  assumes "consistentComparator lc"
  shows "sorted_wrt (rankedAsStored lc) (rankCommands lc query definitions)"
  using rankCommands_sorted [OF assms, of query definitions]
  by (simp only: compareEntries_le_iff)

lemma rankCommands_rankedStrictly:
  assumes cc: "consistentComparator lc" and dn: "distinctUnderCollation lc definitions"
  shows "sorted_wrt (rankedStrictlyAsStored lc) (rankCommands lc query definitions)"
proof (rule sorted_wrt_distinct_rel [OF _ rankCommands_rankedAsStored [OF cc]])
  from dn show "distinct (rankCommands lc query definitions)"
    by (simp add: distinctUnderCollation_def rankCommands_distinct)
next
  fix x y
  assume x: "x \<in> set (rankCommands lc query definitions)"
    and y: "y \<in> set (rankCommands lc query definitions)"
    and ne: "x \<noteq> y" and le: "rankedAsStored lc x y"
  from rankCommands_commands [OF x] rankCommands_commands [OF y] ne
  have cx: "command x \<in> set definitions" and cy: "command y \<in> set definitions"
    and cne: "command x \<noteq> command y" by auto
  with dn have "lc (name (command x)) (name (command y)) \<noteq> 0"
    by (simp add: distinctUnderCollation_def)
  with le show "rankedStrictlyAsStored lc x y"
    by (auto simp: rankedAsStored_def rankedStrictlyAsStored_def)
qed

lemma distinctUnderCollation_mset:
  "mset ds' = mset ds \<Longrightarrow> distinctUnderCollation lc ds \<Longrightarrow> distinctUnderCollation lc ds'"
  unfolding distinctUnderCollation_def
  by (metis mset_eq_imp_distinct_iff mset_eq_setD)

text \<open>
  Claim C2. Let the host's \<^verbatim>\<open>localeCompare\<close> be a consistent comparison, as the
  language standard asks of it. Then every entry of a ranking has a higher score than
  each entry after it, or the same score and a name that the host's comparison does not
  put after the other name, the names being compared as they are stored, case
  included. When no two definitions have names that the host's comparison takes for
  equal, the name comes strictly before the other name, and this order leaves no
  choice: the ranking is the same for every order in which the same definitions are
  handed over, and so for any two calls on the same input.
\<close>

theorem rankCommands_order:
  assumes "consistentComparator localeCompare"
  shows "sorted_wrt (rankedAsStored localeCompare) (rankCommands localeCompare query definitions)
       \<and> (distinctUnderCollation localeCompare definitions \<longrightarrow>
            sorted_wrt (rankedStrictlyAsStored localeCompare)
              (rankCommands localeCompare query definitions)
            \<and> (\<forall>reordered. mset reordered = mset definitions \<longrightarrow>
                 rankCommands localeCompare query reordered
                   = rankCommands localeCompare query definitions))"
proof (intro conjI allI impI)
  show "sorted_wrt (rankedAsStored localeCompare) (rankCommands localeCompare query definitions)"
    by (rule rankCommands_rankedAsStored [OF assms])
next
  assume "distinctUnderCollation localeCompare definitions"
  then show "sorted_wrt (rankedStrictlyAsStored localeCompare)
               (rankCommands localeCompare query definitions)"
    by (rule rankCommands_rankedStrictly [OF assms])
next
  fix reordered
  assume dn: "distinctUnderCollation localeCompare definitions"
    and m: "mset reordered = mset definitions"
  from m dn have "distinctUnderCollation localeCompare reordered"
    by (rule distinctUnderCollation_mset)
  then have "sorted_wrt (rankedStrictlyAsStored localeCompare)
               (rankCommands localeCompare query reordered)"
    by (rule rankCommands_rankedStrictly [OF assms])
  moreover have "sorted_wrt (rankedStrictlyAsStored localeCompare)
               (rankCommands localeCompare query definitions)"
    using dn by (rule rankCommands_rankedStrictly [OF assms])
  moreover have "mset (rankCommands localeCompare query reordered)
               = mset (rankCommands localeCompare query definitions)"
    using m by (rule rankCommands_mset_cong)
  ultimately show "rankCommands localeCompare query reordered
                 = rankCommands localeCompare query definitions"
    using sorted_wrt_unique [of "rankedStrictlyAsStored localeCompare"]
      rankedStrictlyAsStored_asym [OF assms]
    by blast
qed

theorem rankCommands_order_witness:
  "consistentComparator lettersCollation
   \<and> distinctUnderCollation lettersCollation [capitalNamed, ordinalNamed]
   \<and> sorted_wrt (rankedAsStored lettersCollation)
        (rankCommands lettersCollation ''a'' [capitalNamed, ordinalNamed])
   \<and> sorted_wrt (rankedStrictlyAsStored lettersCollation)
        (rankCommands lettersCollation ''a'' [capitalNamed, ordinalNamed])
   \<and> map (\<lambda>e. (name (command e), score e))
        (rankCommands lettersCollation ''a'' [capitalNamed, ordinalNamed])
      = [([CHR ''a'', CHR 0xAA], 2), (''Aa'', 2)]
   \<and> lettersCollation [CHR ''a'', CHR 0xAA] ''Aa'' < 0
   \<and> rankCommands lettersCollation ''a'' [ordinalNamed, capitalNamed]
      = rankCommands lettersCollation ''a'' [capitalNamed, ordinalNamed]"
proof -
  have n: "lettersCollation ''Aa'' [CHR ''a'', CHR 0xAA] \<noteq> 0"
          "lettersCollation [CHR ''a'', CHR 0xAA] ''Aa'' \<noteq> 0" by code_simp+
  have d: "distinctUnderCollation lettersCollation [capitalNamed, ordinalNamed]"
    using n by (auto simp: distinctUnderCollation_def capitalNamed_def ordinalNamed_def)
  have v: "map (\<lambda>e. (name (command e), score e))
        (rankCommands lettersCollation ''a'' [capitalNamed, ordinalNamed])
      = [([CHR ''a'', CHR 0xAA], 2), (''Aa'', 2)]" by code_simp
  have c: "lettersCollation [CHR ''a'', CHR 0xAA] ''Aa'' < 0" by code_simp
  have m: "mset [ordinalNamed, capitalNamed] = mset [capitalNamed, ordinalNamed]" by simp
  show ?thesis
    using rankCommands_order [OF lettersCollation_consistent, of "''a''" "[capitalNamed, ordinalNamed]"]
      lettersCollation_consistent d v c m
    by blast
qed

text \<open>
  The order of the specification does not hold of the program. The host's comparison
  takes the stored names, so that the kind of a letter counts before the letters that
  follow have been compared without regard to case. The two names \<open>Aa\<close> and \<open>a\<close>
  followed by the feminine ordinal indicator are distinct without regard to case, both
  score 2 on the query \<open>a\<close>, and \<open>Aa\<close> comes first without regard to case, in the
  host's comparison of the lower-case forms and in the order of their code units; the
  program lists it second.
\<close>

theorem rankCommands_order_counterexample:
  "consistentComparator lettersCollation
   \<and> distinctIgnoringCase lettersCollation [capitalNamed, ordinalNamed]
   \<and> toLowerCase (name capitalNamed) \<noteq> toLowerCase (name ordinalNamed)
   \<and> map (\<lambda>e. (name (command e), score e))
        (rankCommands lettersCollation ''a'' [capitalNamed, ordinalNamed])
      = [([CHR ''a'', CHR 0xAA], 2), (''Aa'', 2)]
   \<and> compareIgnoringCase lettersCollation ''Aa'' [CHR ''a'', CHR 0xAA] < 0
   \<and> toLowerCase ''Aa'' < toLowerCase [CHR ''a'', CHR 0xAA]
   \<and> \<not> sorted_wrt (rankedBefore lettersCollation)
          (rankCommands lettersCollation ''a'' [capitalNamed, ordinalNamed])"
proof -
  have n: "compareIgnoringCase lettersCollation ''Aa'' [CHR ''a'', CHR 0xAA] \<noteq> 0"
          "compareIgnoringCase lettersCollation [CHR ''a'', CHR 0xAA] ''Aa'' \<noteq> 0" by code_simp+
  have d: "distinctIgnoringCase lettersCollation [capitalNamed, ordinalNamed]"
    using n by (auto simp: distinctIgnoringCase_def capitalNamed_def ordinalNamed_def)
  have l: "toLowerCase (name capitalNamed) \<noteq> toLowerCase (name ordinalNamed)" by code_simp
  have v: "map (\<lambda>e. (name (command e), score e))
        (rankCommands lettersCollation ''a'' [capitalNamed, ordinalNamed])
      = [([CHR ''a'', CHR 0xAA], 2), (''Aa'', 2)]" by code_simp
  have c: "compareIgnoringCase lettersCollation ''Aa'' [CHR ''a'', CHR 0xAA] < 0" by code_simp
  have c': "\<not> compareIgnoringCase lettersCollation [CHR ''a'', CHR 0xAA] ''Aa'' < 0" by code_simp
  have u: "toLowerCase ''Aa'' < toLowerCase [CHR ''a'', CHR 0xAA]" by code_simp
  from v obtain e1 e2 where r: "rankCommands lettersCollation ''a'' [capitalNamed, ordinalNamed] = [e1, e2]"
    and e1: "name (command e1) = [CHR ''a'', CHR 0xAA]" "score e1 = 2"
    and e2: "name (command e2) = ''Aa''" "score e2 = 2"
    by (auto simp: map_eq_Cons_conv)
  have s: "\<not> sorted_wrt (rankedBefore lettersCollation)
          (rankCommands lettersCollation ''a'' [capitalNamed, ordinalNamed])"
    unfolding r using c' by (simp add: rankedBefore_def e1 e2)
  from lettersCollation_consistent d l v c u s show ?thesis by (intro conjI)
qed

section \<open>Facts about the interactive session\<close>

lemma all_space_dropWhile:
  "(\<forall>c\<in>set (dropWhile isSpace s). isSpace c) \<longleftrightarrow> (\<forall>c\<in>set s. isSpace c)"
  by (induction s) auto

lemma trim_empty_iff: "trim s = [] \<longleftrightarrow> (\<forall>c\<in>set s. isSpace c)"
  by (simp add: trim_def dropWhile_eq_Nil_conv all_space_dropWhile)

lemma emit_Nil: "emit [] r = r"
  by (cases r) (simp add: emit_def)

lemma emit_emit: "emit pre (emit evs r) = emit (pre @ evs) r"
  by (cases r) (simp add: emit_def)

lemma emit_tuple: "emit pre (st, evs, unread) = (st, pre @ evs, unread)"
  by (simp add: emit_def)

lemma promptLoop_Cons:
  "promptLoop lc defs (line # rest) =
     (if trim line = [] then (Returned None, [Question searchPrompt], rest)
      else if rankCommands lc (trim line) defs = []
      then emit [Question searchPrompt, Log noMatchText] (promptLoop lc defs rest)
      else if length (rankCommands lc (trim line) defs) = 1
      then (Returned (Some (command (rankCommands lc (trim line) defs ! 0))),
            [Question searchPrompt], rest)
      else resumeSelection lc defs (take 5 (rankCommands lc (trim line) defs))
             ([Question searchPrompt]
              @ showSuggestions (take 5 (rankCommands lc (trim line) defs))
              @ [Question selectPrompt]) rest)"
  by (simp add: resumeSelection_def Let_def min_def split: list.splits option.splits)

lemma resumeSelection_emit:
  "resumeSelection lc defs sugg (pre @ shown) input
     = emit pre (resumeSelection lc defs sugg shown input)"
  by (simp add: resumeSelection_def Let_def emit_emit emit_tuple
      split: list.splits option.splits)

lemma resumeSelection_events:
  "shown \<noteq> [] \<Longrightarrow> fst (snd (resumeSelection lc defs sugg shown input)) \<noteq> []"
  by (cases "promptLoop lc defs (tl input)")
     (auto simp: resumeSelection_def Let_def emit_def split: list.splits option.splits)

lemma promptLoop_events: "fst (snd (promptLoop lc defs xs)) \<noteq> []"
proof (cases xs)
  case Nil
  then show ?thesis by simp
next
  case (Cons line rest)
  show ?thesis
    unfolding Cons promptLoop_Cons
    using resumeSelection_events [of "[Question searchPrompt]
              @ showSuggestions (take 5 (rankCommands lc (trim line) defs))
              @ [Question selectPrompt]" lc defs "take 5 (rankCommands lc (trim line) defs)" rest]
    by (cases "promptLoop lc defs rest") (auto simp: emit_def)
qed

lemma resume_emit:
  assumes "fst (snd r) \<noteq> []"
  shows "resume lc defs (emit pre r) input = emit pre (resume lc defs r input)"
proof -
  obtain st evs unread where r: "r = (st, evs, unread)" by (cases r)
  with assms have ne: "evs \<noteq> []" by simp
  show ?thesis
    unfolding r emit_tuple
    using ne
    by (cases st)
       (auto simp: resume_def emit_tuple emit_emit butlast_append resumeSelection_emit)
qed

lemma resume_resumeSelection:
  assumes IH: "\<And>xs. length xs < length input \<Longrightarrow>
                 promptLoop lc defs (xs @ ys) = resume lc defs (promptLoop lc defs xs) ys"
  shows "resume lc defs (resumeSelection lc defs sugg shown input) ys
         = resumeSelection lc defs sugg shown (input @ ys)"
proof (cases input)
  case Nil
  then show ?thesis by (simp add: resumeSelection_def resume_def)
next
  case (Cons answer rest')
  have ih: "promptLoop lc defs (rest' @ ys) = resume lc defs (promptLoop lc defs rest') ys"
    using IH [of rest'] Cons by simp
  show ?thesis
    unfolding Cons
    by (simp add: resumeSelection_def Let_def ih resume_emit promptLoop_events
        split: option.splits)
       (simp add: resume_def)
qed

lemma promptLoop_append:
  "promptLoop lc defs (xs @ ys) = resume lc defs (promptLoop lc defs xs) ys"
proof (induction xs rule: length_induct)
  case (1 xs)
  show ?case
  proof (cases xs)
    case Nil
    then show ?thesis by (simp add: resume_def emit_Nil)
  next
    case (Cons line rest)
    have ih: "promptLoop lc defs (rest @ ys) = resume lc defs (promptLoop lc defs rest) ys"
      using 1 Cons by simp
    have sel: "\<And>sugg shown. resume lc defs (resumeSelection lc defs sugg shown rest) ys
         = resumeSelection lc defs sugg shown (rest @ ys)"
    proof (rule resume_resumeSelection)
      fix zs :: "string list" assume "length zs < length rest"
      then show "promptLoop lc defs (zs @ ys) = resume lc defs (promptLoop lc defs zs) ys"
        using 1 Cons by simp
    qed
    show ?thesis
      unfolding Cons append_Cons promptLoop_Cons
      by (simp add: ih sel resume_emit promptLoop_events) (simp add: resume_def)
  qed
qed

lemma emit_state: "emit pre r = (st, evs, unread) \<longleftrightarrow>
   (\<exists>evs'. r = (st, evs', unread) \<and> evs = pre @ evs')"
  by (cases r) (auto simp: emit_def)

lemma resumeSelection_selection:
  assumes "resumeSelection lc defs sugg0 shown input = (AwaitingSelection sugg, evs, unread)"
  shows "(input = [] \<and> sugg = sugg0) \<or>
         (\<exists>answer rest' evs'. input = answer # rest' \<and>
              promptLoop lc defs rest' = (AwaitingSelection sugg, evs', unread))"
  using assms
  by (cases input)
     (auto simp: resumeSelection_def Let_def emit_state split: option.splits if_splits)

lemma promptLoop_selection:
  "promptLoop lc defs xs = (AwaitingSelection sugg, evs, unread) \<Longrightarrow>
   xs \<noteq> [] \<and> sugg = take 5 (rankCommands lc (trim (last xs)) defs)
   \<and> 1 < length (rankCommands lc (trim (last xs)) defs)"
proof (induction xs arbitrary: evs rule: length_induct)
  case (1 xs)
  show ?case
  proof (cases xs)
    case Nil
    with 1 show ?thesis by simp
  next
    case (Cons line rest)
    let ?ranked = "rankCommands lc (trim line) defs"
    from "1.prems" have p: "promptLoop lc defs (line # rest) = (AwaitingSelection sugg, evs, unread)"
      by (simp add: Cons)
    have tail: "\<And>zs evs'. length zs \<le> length rest \<Longrightarrow>
                 promptLoop lc defs zs = (AwaitingSelection sugg, evs', unread) \<Longrightarrow>
                 zs \<noteq> [] \<and> sugg = take 5 (rankCommands lc (trim (last zs)) defs)
                 \<and> 1 < length (rankCommands lc (trim (last zs)) defs)"
      using "1.IH" Cons by simp
    consider (none) "trim line \<noteq> []" "?ranked = []"
      | (sel) "trim line \<noteq> []" "?ranked \<noteq> []" "length ?ranked \<noteq> 1"
      | (other) "trim line = [] \<or> (?ranked \<noteq> [] \<and> length ?ranked = 1)"
      by blast
    then show ?thesis
    proof cases
      case none
      with p obtain evs' where "promptLoop lc defs rest = (AwaitingSelection sugg, evs', unread)"
        by (auto simp: promptLoop_Cons emit_state simp del: promptLoop.simps(2))
      from tail [OF _ this] show ?thesis by (simp add: Cons)
    next
      case sel
      with p have "resumeSelection lc defs (take 5 ?ranked)
             ([Question searchPrompt] @ showSuggestions (take 5 ?ranked) @ [Question selectPrompt])
             rest = (AwaitingSelection sugg, evs, unread)"
        by (simp add: promptLoop_Cons del: promptLoop.simps(2))
      from resumeSelection_selection [OF this] show ?thesis
      proof
        assume "rest = [] \<and> sugg = take 5 ?ranked"
        with sel show ?thesis
          by (cases ?ranked) (auto simp: Cons)
      next
        assume "\<exists>answer rest' evs'. rest = answer # rest' \<and>
              promptLoop lc defs rest' = (AwaitingSelection sugg, evs', unread)"
        then obtain answer rest' evs' where r: "rest = answer # rest'"
          and q: "promptLoop lc defs rest' = (AwaitingSelection sugg, evs', unread)" by blast
        from tail [OF _ q] r show ?thesis by (simp add: Cons)
      qed
    next
      case other
      with p show ?thesis
        by (auto simp: promptLoop_Cons simp del: promptLoop.simps(2) split: if_splits)
    qed
  qed
qed

lemma promptLoop_waiting_query:
  assumes "promptLoop lc defs xs = (AwaitingQuery, evs, unread)"
  shows "unread = [] \<and> evs = butlast evs @ [Question searchPrompt]"
proof -
  have "promptLoop lc defs (xs @ []) = resume lc defs (promptLoop lc defs xs) []"
    by (rule promptLoop_append)
  with assms show ?thesis by (simp add: resume_def emit_tuple)
qed

lemma promptLoop_waiting_selection:
  assumes "promptLoop lc defs xs = (AwaitingSelection sugg, evs, unread)"
  shows "unread = []"
proof -
  have "promptLoop lc defs (xs @ []) = resume lc defs (promptLoop lc defs xs) []"
    by (rule promptLoop_append)
  with assms show ?thesis by (simp add: resume_def resumeSelection_def)
qed

lemma promptForCommand_waiting:
  assumes "promptForCommand lc defs xs = (st, evs, unread)" and "\<forall>r. st \<noteq> Returned r"
  shows "defs \<noteq> [] \<and> (\<exists>evs0. promptLoop lc defs xs = (st, evs0, unread) \<and> evs = listing defs @ evs0)"
proof -
  from assms have ne: "defs \<noteq> []"
    by (auto simp: promptForCommand_def)
  obtain st0 evs0 unread0 where p: "promptLoop lc defs xs = (st0, evs0, unread0)"
    by (cases "promptLoop lc defs xs")
  with assms ne show ?thesis
    by (cases st0) (auto simp: promptForCommand_def)
qed

lemma promptForCommand_of_loop:
  assumes "defs \<noteq> []" and "promptLoop lc defs xs = (st, evs0, unread)"
  shows "promptForCommand lc defs xs =
           (st, listing defs @ evs0 @ (case st of Returned r \<Rightarrow> [CloseInterface] | _ \<Rightarrow> []), unread)"
  using assms by (cases st) (auto simp: promptForCommand_def)

lemma parseInt_Nil: "parseInt [] = None"
  by (simp add: parseInt_def)

lemma promptForCommand_state:
  "definitions \<noteq> [] \<Longrightarrow>
   fst (promptForCommand lc definitions xs) = fst (promptLoop lc definitions xs)"
  by (cases "promptLoop lc definitions xs", cases "fst (promptLoop lc definitions xs)")
     (auto simp: promptForCommand_def)

lemma fst_emit: "fst (emit pre r) = fst r"
  by (cases r) (simp add: emit_def)

section \<open>The interactive selector's contract\<close>

text \<open>
  Claim C10. Called with no definition at all, \<^verbatim>\<open>promptForCommand\<close> returns no
  selection at once: nothing is written, so the registry is not listed, the readline
  interface is not created, no prompt is shown, and every line of the input is left
  unread.
\<close>

theorem promptForCommand_empty_registry:
  "promptForCommand localeCompare [] input = (Cancelled, [], input)"
  by (simp add: promptForCommand_def)

text \<open>
  Claim C8. Whatever was typed before, when the session waits at the search prompt and
  the next line is empty or all white space, \<^verbatim>\<open>promptForCommand\<close> returns no
  selection: the session is cancelled, it writes nothing more than the closing of the
  interface, and the lines after that one are not read.
\<close>

theorem promptForCommand_empty_query:
  assumes "promptForCommand localeCompare definitions typed = (AwaitingQuery, evs, unread)"
    and "\<forall>c\<in>set line. isSpace c"
  shows "promptForCommand localeCompare definitions (typed @ line # rest)
           = (Cancelled, evs @ [CloseInterface], rest)"
proof -
  from promptForCommand_waiting [OF assms(1)] obtain evs0
    where ne: "definitions \<noteq> []"
      and p: "promptLoop localeCompare definitions typed = (AwaitingQuery, evs0, unread)"
      and e: "evs = listing definitions @ evs0" by auto
  from promptLoop_waiting_query [OF p] have l: "evs0 = butlast evs0 @ [Question searchPrompt]"
    by simp
  from assms(2) have "trim line = []" by (simp add: trim_empty_iff)
  then have "promptLoop localeCompare definitions (line # rest)
             = (Returned None, [Question searchPrompt], rest)"
    by (simp add: promptLoop_Cons del: promptLoop.simps(2))
  then have "promptLoop localeCompare definitions (typed @ line # rest)
             = (Returned None, butlast evs0 @ [Question searchPrompt], rest)"
    by (simp add: promptLoop_append p resume_def emit_tuple)
  with l have "promptLoop localeCompare definitions (typed @ line # rest)
             = (Returned None, evs0, rest)" by simp
  from promptForCommand_of_loop [OF ne this] e show ?thesis by simp
qed

theorem promptForCommand_empty_query_witness:
  "isAwaitingQuery (fst (promptForCommand sampleCollation [scenarioInstall, scenarioInit] [''zzz'']))
   \<and> list_all isSpace ''  ''
   \<and> fst (promptForCommand sampleCollation [scenarioInstall, scenarioInit]
        ([''zzz''] @ ''  '' # [''init''])) = Cancelled
   \<and> snd (snd (promptForCommand sampleCollation [scenarioInstall, scenarioInit]
        ([''zzz''] @ ''  '' # [''init'']))) = [''init'']"
proof -
  let ?defs = "[scenarioInstall, scenarioInit]"
  have q: "isAwaitingQuery (fst (promptForCommand sampleCollation ?defs [''zzz'']))" by code_simp
  have s: "list_all isSpace ''  ''" by code_simp
  then have s': "\<forall>c\<in>set ''  ''. isSpace c" by (simp only: list_all_iff)
  from q obtain evs unread
    where h: "promptForCommand sampleCollation ?defs [''zzz''] = (AwaitingQuery, evs, unread)"
    by (cases "promptForCommand sampleCollation ?defs [''zzz'']",
        cases "fst (promptForCommand sampleCollation ?defs [''zzz''])")
       (auto simp: isAwaitingQuery_def)
  show ?thesis
    using q s promptForCommand_empty_query [OF h s', of "[''init'']"] by simp
qed

text \<open>
  Claim C7, as amended. When the session waits at the selection prompt, the list it has
  shown has at most 5 entries, the first entries of the ranking of the last search. An
  answer that \<^verbatim>\<open>parseInt\<close> reads as an integer from 1 to the number of entries shown
  returns the entry at that place. Any other answer that is not blank writes the
  invalid-selection message and takes the session back to the search prompt: the next
  line is read as a search, not as a selection.
\<close>

theorem promptForCommand_selection:
  assumes "promptForCommand localeCompare definitions typed
             = (AwaitingSelection presented, evs, unread)"
  shows "length presented \<le> 5
       \<and> typed \<noteq> []
       \<and> presented = take 5 (rankCommands localeCompare (trim (last typed)) definitions)
       \<and> (\<forall>n. parseInt (trim answer) = Some n \<and> 1 \<le> n \<and> n \<le> int (length presented) \<longrightarrow>
            promptForCommand localeCompare definitions (typed @ answer # rest)
              = (Done (command (presented ! nat (n - 1))), evs @ [CloseInterface], rest))
       \<and> (trim answer \<noteq> [] \<and>
          \<not> (\<exists>n. parseInt (trim answer) = Some n \<and> 1 \<le> n \<and> n \<le> int (length presented)) \<longrightarrow>
            promptForCommand localeCompare definitions (typed @ [answer])
              = (AwaitingQuery, evs @ [Log invalidSelectionText, Question searchPrompt], [])
            \<and> fst (promptForCommand localeCompare definitions (typed @ answer # rest))
              = fst (promptForCommand localeCompare definitions rest))"
proof -
  from promptForCommand_waiting [OF assms] obtain evs0
    where ne: "definitions \<noteq> []"
      and p: "promptLoop localeCompare definitions typed = (AwaitingSelection presented, evs0, unread)"
      and e: "evs = listing definitions @ evs0" by auto
  from promptLoop_selection [OF p]
  have inv: "typed \<noteq> []"
    "presented = take 5 (rankCommands localeCompare (trim (last typed)) definitions)" by auto
  then have len: "length presented \<le> 5" by simp
  have step: "\<And>more. promptLoop localeCompare definitions (typed @ answer # more)
          = resumeSelection localeCompare definitions presented evs0 (answer # more)"
    by (simp add: promptLoop_append p resume_def)
  have valid: "promptForCommand localeCompare definitions (typed @ answer # rest)
              = (Done (command (presented ! nat (n - 1))), evs @ [CloseInterface], rest)"
    if "parseInt (trim answer) = Some n" "1 \<le> n" "n \<le> int (length presented)" for n
  proof -
    from that have "trim answer \<noteq> []" by (auto simp: parseInt_Nil)
    with that have "promptLoop localeCompare definitions (typed @ answer # rest)
          = (Done (command (presented ! nat (n - 1))), evs0, rest)"
      unfolding step by (simp add: resumeSelection_def)
    from promptForCommand_of_loop [OF ne this] e show ?thesis by simp
  qed
  have invalid: "promptForCommand localeCompare definitions (typed @ [answer])
              = (AwaitingQuery, evs @ [Log invalidSelectionText, Question searchPrompt], [])
            \<and> fst (promptForCommand localeCompare definitions (typed @ answer # rest))
              = fst (promptForCommand localeCompare definitions rest)"
    if "trim answer \<noteq> []"
       "\<not> (\<exists>n. parseInt (trim answer) = Some n \<and> 1 \<le> n \<and> n \<le> int (length presented))"
  proof -
    from that have again: "\<And>more. promptLoop localeCompare definitions (typed @ answer # more)
          = emit (evs0 @ [Log invalidSelectionText]) (promptLoop localeCompare definitions more)"
      unfolding step by (auto simp: resumeSelection_def split: option.splits)
    from again [of "[]"] have "promptLoop localeCompare definitions (typed @ [answer])
          = (AwaitingQuery, evs0 @ [Log invalidSelectionText, Question searchPrompt], [])"
      by (simp add: emit_tuple)
    from promptForCommand_of_loop [OF ne this] e
    have a: "promptForCommand localeCompare definitions (typed @ [answer])
              = (AwaitingQuery, evs @ [Log invalidSelectionText, Question searchPrompt], [])"
      by simp
    have b: "fst (promptForCommand localeCompare definitions (typed @ answer # rest))
              = fst (promptForCommand localeCompare definitions rest)"
      by (simp add: promptForCommand_state [OF ne] again fst_emit)
    from a b show ?thesis by simp
  qed
  from len inv valid invalid show ?thesis by blast
qed

theorem promptForCommand_selection_witness:
  "presentedNames (fst (promptForCommand sampleCollation [scenarioInstall, scenarioInit] [''in'']))
     = Some [''init'', ''install'']
   \<and> parseInt (trim '' 2 '') = Some 2
   \<and> returnedName (fst (promptForCommand sampleCollation [scenarioInstall, scenarioInit]
        ([''in''] @ '' 2 '' # [''left''])))
     = Some (Some ''install'')
   \<and> snd (snd (promptForCommand sampleCollation [scenarioInstall, scenarioInit]
        ([''in''] @ '' 2 '' # [''left''])))
     = [''left'']
   \<and> trim ''7'' \<noteq> [] \<and> parseInt (trim ''7'') = Some 7
   \<and> fst (promptForCommand sampleCollation [scenarioInstall, scenarioInit] ([''in''] @ [''7'']))
     = AwaitingQuery"
proof -
  let ?defs = "[scenarioInstall, scenarioInit]"
  have names: "presentedNames (fst (promptForCommand sampleCollation ?defs [''in'']))
     = Some [''init'', ''install'']" by code_simp
  have two: "parseInt (trim '' 2 '') = Some 2" by code_simp
  have seven: "trim ''7'' \<noteq> []" "parseInt (trim ''7'') = Some 7" by code_simp+
  obtain st evs unread
    where h0: "promptForCommand sampleCollation ?defs [''in''] = (st, evs, unread)"
    by (cases "promptForCommand sampleCollation ?defs [''in'']")
  with names have pn0: "presentedNames st = Some [''init'', ''install'']" by simp
  then obtain presented where st: "st = AwaitingSelection presented"
    by (cases st) (simp_all add: presentedNames_def)
  from pn0 st have pn: "map (\<lambda>e. name (command e)) presented = [''init'', ''install'']"
    by (simp add: presentedNames_def)
  from h0 st have h: "promptForCommand sampleCollation ?defs [''in'']
                = (AwaitingSelection presented, evs, unread)" by simp
  have "length (map (\<lambda>e. name (command e)) presented) = length [''init'', ''install'']"
    by (simp only: pn)
  then have l: "length presented = 2" by simp
  have "map (\<lambda>e. name (command e)) presented ! 1 = [''init'', ''install''] ! 1"
    by (simp only: pn)
  then have second: "name (command (presented ! 1)) = ''install''"
    using l by simp
  note T2 = promptForCommand_selection [OF h, of "'' 2 ''" "[''left'']"]
  from T2 have "\<forall>n. parseInt (trim '' 2 '') = Some n \<and> 1 \<le> n \<and> n \<le> int (length presented) \<longrightarrow>
            promptForCommand sampleCollation ?defs ([''in''] @ '' 2 '' # [''left''])
              = (Done (command (presented ! nat (n - 1))), evs @ [CloseInterface], [''left''])"
    by (elim conjE)
  then have "parseInt (trim '' 2 '') = Some 2 \<and> 1 \<le> (2::int) \<and> 2 \<le> int (length presented) \<longrightarrow>
            promptForCommand sampleCollation ?defs ([''in''] @ '' 2 '' # [''left''])
              = (Done (command (presented ! nat (2 - 1))), evs @ [CloseInterface], [''left''])"
    by (rule spec)
  with two l have sel: "promptForCommand sampleCollation ?defs ([''in''] @ '' 2 '' # [''left''])
              = (Done (command (presented ! 1)), evs @ [CloseInterface], [''left''])"
    by simp
  note T7 = promptForCommand_selection [OF h, of "''7''" "[]"]
  from T7 have "trim ''7'' \<noteq> [] \<and>
          \<not> (\<exists>n. parseInt (trim ''7'') = Some n \<and> 1 \<le> n \<and> n \<le> int (length presented)) \<longrightarrow>
            promptForCommand sampleCollation ?defs ([''in''] @ [''7''])
              = (AwaitingQuery, evs @ [Log invalidSelectionText, Question searchPrompt], [])
            \<and> fst (promptForCommand sampleCollation ?defs ([''in''] @ ''7'' # []))
              = fst (promptForCommand sampleCollation ?defs [])"
    by (elim conjE)
  with seven l have inv: "promptForCommand sampleCollation ?defs ([''in''] @ [''7''])
              = (AwaitingQuery, evs @ [Log invalidSelectionText, Question searchPrompt], [])"
    by simp
  show ?thesis
    unfolding sel inv using names two seven second by (simp add: returnedName_def)
qed

text \<open>
  Claim C7 as the specification states it keeps the session at the selection prompt
  after an invalid answer. In the specification's first scenario, \<open>in\<close> is answered by a
  list of two commands; the answer \<open>x\<close> is then followed by the invalid-selection
  message and by the search prompt, the session waits for a search, and a following
  \<open>1\<close> selects nothing: it is searched for and matches no command.
\<close>

theorem promptForCommand_selection_counterexample:
  "presentedNames (fst (promptForCommand sampleCollation [scenarioInstall, scenarioInit] [''in'']))
     = Some [''init'', ''install'']
   \<and> trim ''x'' = ''x'' \<and> parseInt ''x'' = None
   \<and> presentedNames (fst (promptForCommand sampleCollation [scenarioInstall, scenarioInit]
        [''in'', ''x''])) = None
   \<and> isAwaitingQuery (fst (promptForCommand sampleCollation [scenarioInstall, scenarioInit]
        [''in'', ''x'']))
   \<and> drop 11 (fst (snd (promptForCommand sampleCollation [scenarioInstall, scenarioInit]
        [''in'', ''x''])))
     = [Question selectPrompt, Log invalidSelectionText, Question searchPrompt]
   \<and> returnedName (fst (promptForCommand sampleCollation [scenarioInstall, scenarioInit]
        [''in'', ''x'', ''1''])) = None
   \<and> drop 14 (fst (snd (promptForCommand sampleCollation [scenarioInstall, scenarioInit]
        [''in'', ''x'', ''1''])))
     = [Log noMatchText, Question searchPrompt]"
  by code_simp

section \<open>The dispatcher's contract\<close>

lemma mainBody_direct:
  assumes "findCommand registry commandName = Some c"
    and "\<not> (commandArgs = [] \<and> commandName \<in> {''--version'', ''-v'', ''--help'', ''-h''})"
    and "commandName \<noteq> ''help''"
    and "\<not> list_ex (\<lambda>v. v = ''--help'' \<or> v = ''-h'') commandArgs"
    and "run c commandArgs = (out, err)"
  shows "mainBody lc registry
           \<lparr> argv = commandName # commandArgs, stdinIsTTY = inTTY, stdoutIsTTY = outTTY,
             stdinLines = typed \<rparr>
         = (\<lparr> written = out, exitCode = 0, awaitingInput = False \<rparr>, err)"
  using assms by (auto simp: mainBody_def executeCommand_def)

lemma mainBody_interactive:
  assumes "promptForCommand lc registry typed = (Done c, evs, unread)"
    and "run c [] = (out, err)"
  shows "mainBody lc registry
           \<lparr> argv = [], stdinIsTTY = True, stdoutIsTTY = True, stdinLines = typed \<rparr>
         = (\<lparr> written = evs @ out, exitCode = 0, awaitingInput = False \<rparr>, err)"
  using assms by (simp add: mainBody_def executeCommand_def)

lemma printedLines_one: "printedLines text = 1 \<longleftrightarrow> CHR 0x0A \<notin> set text"
  by (auto simp: printedLines_def filter_empty_conv)

text \<open>
  Claim C9, as amended. Whenever \<^verbatim>\<open>main\<close> invokes a command, be it the command named
  on the command line with the arguments after it or the command chosen in the
  interactive session with no argument, and the command's \<^verbatim>\<open>run\<close> throws, the
  throw is caught by the one handler of \<^verbatim>\<open>main\<close>: after what the command wrote,
  the message goes to the error stream in one write, the exit code is 1, and \<^verbatim>\<open>main\<close>
  ends normally. The message takes a single line exactly when it holds no line feed.
\<close>

theorem main_reports_failure:
  "(findCommand registry commandName = Some c
      \<and> \<not> (commandArgs = [] \<and> commandName \<in> {''--version'', ''-v'', ''--help'', ''-h''})
      \<and> commandName \<noteq> ''help''
      \<and> \<not> list_ex (\<lambda>v. v = ''--help'' \<or> v = ''-h'') commandArgs
      \<and> run c commandArgs = (out, Some error)
    \<longrightarrow> main localeCompare registry
          \<lparr> argv = commandName # commandArgs, stdinIsTTY = inTTY, stdoutIsTTY = outTTY,
            stdinLines = typed \<rparr>
        = \<lparr> written = out @ [LogError (errorText error)], exitCode = 1,
            awaitingInput = False \<rparr>)
   \<and> (promptForCommand localeCompare registry typed = (Done c, evs, unread)
      \<and> run c [] = (out, Some error)
    \<longrightarrow> main localeCompare registry
          \<lparr> argv = [], stdinIsTTY = True, stdoutIsTTY = True, stdinLines = typed \<rparr>
        = \<lparr> written = evs @ out @ [LogError (errorText error)], exitCode = 1,
            awaitingInput = False \<rparr>)
   \<and> (printedLines (errorText error) = 1 \<longleftrightarrow> CHR 0x0A \<notin> set (errorText error))"
proof (intro conjI impI)
  assume "findCommand registry commandName = Some c
      \<and> \<not> (commandArgs = [] \<and> commandName \<in> {''--version'', ''-v'', ''--help'', ''-h''})
      \<and> commandName \<noteq> ''help''
      \<and> \<not> list_ex (\<lambda>v. v = ''--help'' \<or> v = ''-h'') commandArgs
      \<and> run c commandArgs = (out, Some error)"
  then have a: "findCommand registry commandName = Some c"
    "\<not> (commandArgs = [] \<and> commandName \<in> {''--version'', ''-v'', ''--help'', ''-h''})"
    "commandName \<noteq> ''help''"
    "\<not> list_ex (\<lambda>v. v = ''--help'' \<or> v = ''-h'') commandArgs"
    "run c commandArgs = (out, Some error)"
    by blast+
  have "mainBody localeCompare registry
           \<lparr> argv = commandName # commandArgs, stdinIsTTY = inTTY, stdoutIsTTY = outTTY,
             stdinLines = typed \<rparr>
         = (\<lparr> written = out, exitCode = 0, awaitingInput = False \<rparr>, Some error)"
    by (rule mainBody_direct [OF a])
  then show "main localeCompare registry
          \<lparr> argv = commandName # commandArgs, stdinIsTTY = inTTY, stdoutIsTTY = outTTY,
            stdinLines = typed \<rparr>
        = \<lparr> written = out @ [LogError (errorText error)], exitCode = 1,
            awaitingInput = False \<rparr>"
    by (simp add: main_def)
next
  assume "promptForCommand localeCompare registry typed = (Done c, evs, unread)
      \<and> run c [] = (out, Some error)"
  then have b: "promptForCommand localeCompare registry typed = (Done c, evs, unread)"
    "run c [] = (out, Some error)"
    by blast+
  have "mainBody localeCompare registry
           \<lparr> argv = [], stdinIsTTY = True, stdoutIsTTY = True, stdinLines = typed \<rparr>
         = (\<lparr> written = evs @ out, exitCode = 0, awaitingInput = False \<rparr>, Some error)"
    by (rule mainBody_interactive [OF b])
  then show "main localeCompare registry
          \<lparr> argv = [], stdinIsTTY = True, stdoutIsTTY = True, stdinLines = typed \<rparr>
        = \<lparr> written = evs @ out @ [LogError (errorText error)], exitCode = 1,
            awaitingInput = False \<rparr>"
    by (simp add: main_def)
next
  show "printedLines (errorText error) = 1 \<longleftrightarrow> CHR 0x0A \<notin> set (errorText error)"
    by (rule printedLines_one)
qed

theorem main_reports_failure_witness:
  "findCommand (commands ([], Some (ErrorObject ''package.json not found in the current directory.'')))
     ''INIT''
     = Some (initCommand ([], Some (ErrorObject ''package.json not found in the current directory.'')))
   \<and> run (initCommand ([], Some (ErrorObject ''package.json not found in the current directory.'')))
       [''now'']
     = ([], Some (ErrorObject ''Unexpected arguments for init: now''))
   \<and> main sampleCollation
       (commands ([], Some (ErrorObject ''package.json not found in the current directory.'')))
       \<lparr> argv = [''INIT'', ''now''], stdinIsTTY = False, stdoutIsTTY = False, stdinLines = [] \<rparr>
     = \<lparr> written = [LogError ''Unexpected arguments for init: now''], exitCode = 1,
         awaitingInput = False \<rparr>
   \<and> run (initCommand ([], Some (ErrorObject ''package.json not found in the current directory.'')))
       []
     = ([], Some (ErrorObject ''package.json not found in the current directory.''))
   \<and> main sampleCollation
       (commands ([], Some (ErrorObject ''package.json not found in the current directory.'')))
       \<lparr> argv = [], stdinIsTTY = True, stdoutIsTTY = True, stdinLines = [''ini''] \<rparr>
     = \<lparr> written =
           listing (commands ([], Some (ErrorObject ''package.json not found in the current directory.'')))
           @ [Question searchPrompt, CloseInterface,
              LogError ''package.json not found in the current directory.''],
         exitCode = 1, awaitingInput = False \<rparr>
   \<and> printedLines ''package.json not found in the current directory.'' = 1"
proof -
  let ?h = "([], Some (ErrorObject ''package.json not found in the current directory.''))
              :: run_outcome"
  have found: "findCommand (commands ?h) ''INIT'' = Some (initCommand ?h)"
    by (simp add: findCommand_def commands_def initCommand_def lower_INIT Let_def)
  have args: "\<not> ([''now''] = [] \<and> ''INIT'' \<in> {''--version'', ''-v'', ''--help'', ''-h''})"
    "''INIT'' \<noteq> ''help''" "\<not> list_ex (\<lambda>v. v = ''--help'' \<or> v = ''-h'') [''now'']"
    by simp_all
  have "join '' '' [''now''] = ''now''" by simp
  then have thrown: "run (initCommand ?h) [''now'']
      = ([], Some (ErrorObject ''Unexpected arguments for init: now''))"
    by (simp add: initCommand_def)
  have thrown': "run (initCommand ?h) [] = ([], Some (ErrorObject ''package.json not found in the current directory.''))"
    by (simp add: initCommand_def)
  have t: "trim ''ini'' = ''ini''" by code_simp
  have q: "queryTokens ''ini'' = [''ini'']" by code_simp
  have s: "tokenLoop [''ini''] (buildSearchText (initCommand ?h)) 0 = 6" by code_simp
  have ranked: "rankCommands sampleCollation ''ini'' (commands ?h)
                  = [\<lparr> command = initCommand ?h, score = 6 \<rparr>]"
    by (simp add: rankCommands_def q commands_def scoreCommand_def s sortBy_def
        del: tokenLoop.simps)
  have loop: "promptLoop sampleCollation (commands ?h) [''ini'']
                = (Done (initCommand ?h), [Question searchPrompt], [])"
    by (simp add: promptLoop_Cons t ranked del: promptLoop.simps(2))
  have ne: "commands ?h \<noteq> []" by (simp add: commands_def)
  have session: "promptForCommand sampleCollation (commands ?h) [''ini'']
                = (Done (initCommand ?h),
                   listing (commands ?h) @ [Question searchPrompt] @ [CloseInterface], [])"
    using promptForCommand_of_loop [OF ne loop] by simp
  have one: "printedLines ''package.json not found in the current directory.'' = 1"
    by code_simp
  note T = main_reports_failure [of "commands ?h" "''INIT''" "initCommand ?h" "[''now'']" "[]"
      "ErrorObject ''Unexpected arguments for init: now''" sampleCollation False False "[]"]
  from T found args thrown
  have direct: "main sampleCollation (commands ?h)
       \<lparr> argv = [''INIT'', ''now''], stdinIsTTY = False, stdoutIsTTY = False, stdinLines = [] \<rparr>
     = \<lparr> written = [LogError (errorText (ErrorObject ''Unexpected arguments for init: now''))],
         exitCode = 1, awaitingInput = False \<rparr>"
    by simp
  note U = main_reports_failure [of "commands ?h" "''INIT''" "initCommand ?h" "[''now'']" "[]"
      "ErrorObject ''package.json not found in the current directory.''" sampleCollation
      False False "[''ini'']"
      "listing (commands ?h) @ [Question searchPrompt] @ [CloseInterface]" "[]"]
  from U session thrown'
  have interactive: "main sampleCollation (commands ?h)
       \<lparr> argv = [], stdinIsTTY = True, stdoutIsTTY = True, stdinLines = [''ini''] \<rparr>
     = \<lparr> written = (listing (commands ?h) @ [Question searchPrompt] @ [CloseInterface]) @ []
           @ [LogError (errorText
               (ErrorObject ''package.json not found in the current directory.''))],
         exitCode = 1, awaitingInput = False \<rparr>"
    by blast
  show ?thesis
    unfolding direct interactive using found thrown thrown' one
    by (simp add: errorText_def)
qed

text \<open>
  Claim C9 as the specification states it has the message printed as a single line. The
  message of \<^verbatim>\<open>init\<close> repeats the arguments it was given; with an argument that
  holds a line feed, the one write to the error stream takes two lines.
\<close>

theorem main_reports_failure_counterexample:
  "main sampleCollation (commands ([], None))
     \<lparr> argv = [''init'', ''a'' @ [CHR 0x0A] @ ''b''], stdinIsTTY = True, stdoutIsTTY = True,
       stdinLines = [] \<rparr>
   = \<lparr> written = [LogError (''Unexpected arguments for init: a'' @ [CHR 0x0A] @ ''b'')],
       exitCode = 1, awaitingInput = False \<rparr>
   \<and> printedLines (''Unexpected arguments for init: a'' @ [CHR 0x0A] @ ''b'') = 2"
  by code_simp

end
